theory Spec2Isabelle
  imports Main "HOL-Library.Multiset"
begin

section \<open>Data model\<close>

text \<open>
  The repository holds two Express/Mongoose servers with the same route
  \<^verbatim>\<open>PUT /api/requests/:id/approve\<close>: \<^verbatim>\<open>src/server.js\<close>, which marks the consumed
  batches \<^verbatim>\<open>used\<close> and the request \<^verbatim>\<open>fulfilled\<close>, and \<^verbatim>\<open>src/unnamed/part_000\<close>, which
  marks the batches \<^verbatim>\<open>reserved\<close> and the request \<^verbatim>\<open>approved\<close>. Both are embedded:
  the first as \<open>approve\<close>, the second as \<open>approve_reserve\<close>.

  A Mongo collection is the list of its documents. Dates are milliseconds (\<open>int\<close>),
  ObjectIds are natural numbers. The schema type Number of \<^verbatim>\<open>units\<close> is a JavaScript
  double; the routes that create documents accept integers only (\<^verbatim>\<open>isInt({ min: 1 })\<close>,
  with no upper bound), so a stored value is an \<open>int\<close>, and what the handlers compute
  with it is rounded as a double is (section Numbers).
\<close>

datatype bloodType = A_pos | A_neg | B_pos | B_neg | AB_pos | AB_neg | O_pos | O_neg

datatype inv_status = available | reserved | used | expired

datatype priority = Low | Medium | High | Critical

text \<open>
  The request status of both schemas: \<^verbatim>\<open>server.js\<close> allows pending, fulfilled, rejected,
  cancelled; \<^verbatim>\<open>part_000\<close> allows pending, approved, rejected, fulfilled.
\<close>

datatype req_status = pending | approved | fulfilled | rejected | cancelled

text \<open>\<^verbatim>\<open>inventorySchema\<close> (the same fields in both servers).\<close>

record inventory_doc =
  inv_id :: nat
  bloodType :: bloodType
  units :: int
  donorId :: "nat option"
  collectionDate :: int
  expiryDate :: int
  status :: inv_status
  createdAt :: int
  updatedAt :: int

text \<open>\<^verbatim>\<open>requestSchema\<close> of \<^verbatim>\<open>server.js\<close>.\<close>

record request_doc =
  req_id :: nat
  patientName :: string
  req_bloodType :: bloodType
  req_units :: int
  req_priority :: priority
  hospital :: string
  req_status :: req_status
  requestDate :: int
  processedBy :: "string option"
  processedDate :: "int option"
  req_createdAt :: int
  req_updatedAt :: int

text \<open>\<^verbatim>\<open>requestSchema\<close> and \<^verbatim>\<open>recipientSchema\<close> of \<^verbatim>\<open>part_000\<close>.\<close>

record reserve_request_doc =
  rsv_id :: nat
  recipientId :: nat
  recipientName :: string
  rsv_bloodType :: bloodType
  rsv_units :: int
  rsv_hospital :: string
  urgency :: priority
  rsv_status :: req_status
  rsv_notes :: "string option"
  rsv_processedBy :: "string option"
  rsv_createdAt :: int
  rsv_updatedAt :: int

record recipient_doc =
  rcp_id :: nat
  rcp_name :: string
  rcp_age :: int
  rcp_bloodType :: bloodType
  rcp_phone :: string
  rcp_hospital :: string
  unitsRequired :: int
  rcp_urgency :: priority
  rcp_status :: req_status
  rcp_createdAt :: int
  rcp_updatedAt :: int

record store =
  inventory :: "inventory_doc list"
  requests :: "request_doc list"

record reserve_store =
  rsv_inventory :: "inventory_doc list"
  rsv_requests :: "reserve_request_doc list"
  recipients :: "recipient_doc list"

text \<open>
  The error responses of the handlers: 404, the two 400s (with what their message
  prints), and the 500 of the \<^verbatim>\<open>catch\<close> block.
\<close>

datatype error =
    NotFound
  | InvalidState req_status
  | InsufficientStock "bloodType option" int int
  | Unexpected

section \<open>Numbers\<close>

text \<open>
  A double holds every integer up to \<open>2 ^ 53\<close> in absolute value. Beyond that it keeps
  the 53 leading bits: the result of an addition or subtraction of integers is the exact
  result rounded to the nearest such value, and to the one with an even last kept bit
  when it lies half way. \<open>dropBits n a\<close> counts the low bits that \<open>a\<close> loses (at most
  \<open>n\<close>), \<open>js_num\<close> is the rounding and \<open>js_sub\<close> is the \<^verbatim>\<open>-=\<close> of the handlers. The numbers are taken finite (below \<open>2 ^ 1024\<close>, where a double stops);
  \<^verbatim>\<open>Infinity\<close> is not modelled.
\<close>

definition maxExact :: int where
  "maxExact = 2 ^ 53"

fun dropBits :: "nat \<Rightarrow> int \<Rightarrow> nat" where
  "dropBits 0 a = 0"
| "dropBits (Suc n) a = (if a < 2 ^ 53 then 0 else Suc (dropBits n (a div 2)))"

definition js_num :: "int \<Rightarrow> int" where
  "js_num x =
     (if \<bar>x\<bar> \<le> maxExact then x
      else
        let e = dropBits 1024 \<bar>x\<bar>;
            q = \<bar>x\<bar> div 2 ^ e;
            r = \<bar>x\<bar> mod 2 ^ e;
            h = 2 ^ (e - 1);
            q' = (if h < r \<or> (r = h \<and> odd q) then q + 1 else q)
        in sgn x * (q' * 2 ^ e))"

definition js_sub :: "int \<Rightarrow> int \<Rightarrow> int" where
  "js_sub a b = js_num (a - b)"

section \<open>The environment of a handler run\<close>

text \<open>
  \<open>clk k\<close> is what the \<open>k\<close>-th reading of the system clock (\<^verbatim>\<open>new Date()\<close>,
  \<^verbatim>\<open>Date.now\<close>) of the run returns, \<open>fails w\<close> says whether the database rejects the
  \<open>w\<close>-th write of the run (the \<^verbatim>\<open>await\<close> then throws into the \<^verbatim>\<open>catch\<close> block).
  Reads are taken to succeed.
\<close>

type_synonym clock = "nat \<Rightarrow> int"
type_synonym faults = "nat \<Rightarrow> bool"

text \<open>
  \<^verbatim>\<open>.sort({ expiryDate: 1 })\<close> has one key. The store returns the matching documents
  in ascending order of that key and in an order of its own choice among equal keys,
  so the sort is a parameter \<open>srt\<close> of the handlers and \<open>sortedByExpiry\<close> is what is
  known of its result.
\<close>

definition sortedByExpiry :: "(inventory_doc list \<Rightarrow> inventory_doc list) \<Rightarrow> inventory_doc list \<Rightarrow> bool" where
  "sortedByExpiry srt ms = (mset (srt ms) = mset ms \<and> sorted (map expiryDate (srt ms)))"

section \<open>Store primitives\<close>

text \<open>\<^verbatim>\<open>doc.save()\<close> of a loaded document: \<^verbatim>\<open>$set\<close> of the modified paths on the stored
  document with that \<^verbatim>\<open>_id\<close>.\<close>

definition updateOne :: "nat \<Rightarrow> (inventory_doc \<Rightarrow> inventory_doc) \<Rightarrow> inventory_doc list \<Rightarrow> inventory_doc list" where
  "updateOne i f docs = map (\<lambda>d. if inv_id d = i then f d else d) docs"

text \<open>The \<^verbatim>\<open>_id\<close> of a new document: one that no stored document has.\<close>

definition new_id :: "inventory_doc list \<Rightarrow> nat" where
  "new_id docs = Suc (foldr (\<lambda>d m. max (inv_id d) m) docs 0)"

definition findInv :: "nat \<Rightarrow> inventory_doc list \<Rightarrow> inventory_doc option" where
  "findInv i docs = find (\<lambda>d. inv_id d = i) docs"

text \<open>
  \<^verbatim>\<open>$group\<close> with \<^verbatim>\<open>$sum: '$units'\<close> and the \<^verbatim>\<open>length > 0 ? ... : 0\<close> that reads it. The
  database adds the stored numbers and the handler receives the total as a double:
  the sum, rounded.
\<close>

definition exactSum :: "inventory_doc list \<Rightarrow> int" where
  "exactSum ms = sum_list (map units ms)"

definition aggregateTotal :: "inventory_doc list \<Rightarrow> int" where
  "aggregateTotal ms = (if ms = [] then 0 else js_num (exactSum ms))"

section \<open>The expiry sweep\<close>

text \<open>
  \<^verbatim>\<open>checkExpiredBlood\<close> (both servers): \<^verbatim>\<open>updateMany\<close> of the documents with
  \<^verbatim>\<open>expiryDate < now\<close> and status available; \<open>now\<close> is the clock reading it takes.
\<close>

definition checkExpiredBlood :: "int \<Rightarrow> inventory_doc list \<Rightarrow> inventory_doc list" where
  "checkExpiredBlood now docs =
     map (\<lambda>d. if expiryDate d < now \<and> status d = available then d\<lparr>status := expired\<rparr> else d) docs"

section \<open>Approval in server.js\<close>

text \<open>The \<^verbatim>\<open>$match\<close> of the aggregate and the filter of the \<^verbatim>\<open>find\<close>.\<close>

definition matchAvailable :: "bloodType \<Rightarrow> int \<Rightarrow> inventory_doc \<Rightarrow> bool" where
  "matchAvailable bt now d = (bloodType d = bt \<and> status d = available \<and> expiryDate d > now)"

definition totalAvailable :: "bloodType \<Rightarrow> int \<Rightarrow> inventory_doc list \<Rightarrow> int" where
  "totalAvailable bt now docs = aggregateTotal (filter (matchAvailable bt now) docs)"

datatype loop_result =
    Completed nat nat "inventory_doc list"
  | WriteFailed "inventory_doc list"

fun inv_of :: "loop_result \<Rightarrow> inventory_doc list" where
  "inv_of (Completed k w docs) = docs"
| "inv_of (WriteFailed docs) = docs"

text \<open>
  The \<^verbatim>\<open>for (const item of inventoryItemsToUpdate)\<close> loop. \<open>u\<close> is \<^verbatim>\<open>unitsToDeduct\<close>,
  \<open>k\<close> and \<open>w\<close> count the clock readings and the writes made so far, \<open>docs\<close> is the
  collection. After a split \<^verbatim>\<open>unitsToDeduct\<close> is 0 and the next iteration breaks.
\<close>

fun deductLoop :: "clock \<Rightarrow> faults \<Rightarrow> inventory_doc list \<Rightarrow> int \<Rightarrow> nat \<Rightarrow> nat \<Rightarrow> inventory_doc list \<Rightarrow> loop_result" where
  "deductLoop clk fails [] u k w docs = Completed k w docs"
| "deductLoop clk fails (item # rest) u k w docs =
     (if u \<le> 0 then Completed k w docs
      else if units item \<le> u then
        (if fails w then WriteFailed docs
         else deductLoop clk fails rest (js_sub u (units item)) (Suc k) (Suc w)
                (updateOne (inv_id item) (\<lambda>d. d\<lparr>status := used, updatedAt := clk k\<rparr>) docs))
      else
        (if fails w then WriteFailed docs
         else
           let newUsedBatch =
                 \<lparr>inv_id = new_id docs, bloodType = bloodType item, units = u,
                  donorId = donorId item, collectionDate = collectionDate item,
                  expiryDate = expiryDate item, status = used,
                  createdAt = createdAt item, updatedAt = clk k\<rparr>;
               docs1 = docs @ [newUsedBatch]
           in if fails (Suc w) then WriteFailed docs1
              else deductLoop clk fails rest 0 (Suc (Suc k)) (Suc (Suc w))
                     (updateOne (inv_id item)
                        (\<lambda>d. d\<lparr>units := js_sub (units item) u, updatedAt := clk (Suc k)\<rparr>) docs1)))"

text \<open>The handler. It returns the response and the store it leaves.\<close>

definition approve :: "clock \<Rightarrow> faults \<Rightarrow> (inventory_doc list \<Rightarrow> inventory_doc list) \<Rightarrow> nat \<Rightarrow> store \<Rightarrow> (error + request_doc) \<times> store" where
  "approve clk fails srt rid db =
     (case find (\<lambda>r. req_id r = rid) (requests db) of
        None \<Rightarrow> (Inl NotFound, db)
      | Some request \<Rightarrow>
          if req_status request \<noteq> pending then (Inl (InvalidState (req_status request)), db)
          else if totalAvailable (req_bloodType request) (clk 0) (inventory db) < req_units request
          then (Inl (InsufficientStock (Some (req_bloodType request))
                       (totalAvailable (req_bloodType request) (clk 0) (inventory db))
                       (req_units request)), db)
          else
            (case deductLoop clk fails
                    (srt (filter (matchAvailable (req_bloodType request) (clk 1)) (inventory db)))
                    (req_units request) 2 0 (inventory db) of
               WriteFailed docs' \<Rightarrow> (Inl Unexpected, db\<lparr>inventory := docs'\<rparr>)
             | Completed k w docs' \<Rightarrow>
                 if fails w then (Inl Unexpected, db\<lparr>inventory := docs'\<rparr>)
                 else
                   (Inr (request\<lparr>req_status := fulfilled, processedBy := Some ''System'',
                                 processedDate := Some (clk k), req_updatedAt := clk (Suc k)\<rparr>),
                    db\<lparr>inventory := docs',
                       requests := map (\<lambda>r. if req_id r = rid
                                              then r\<lparr>req_status := fulfilled, processedBy := Some ''System'',
                                                     processedDate := Some (clk k), req_updatedAt := clk (Suc k)\<rparr>
                                              else r) (requests db)\<rparr>)))"

section \<open>Approval in part_000 (the reservation variant)\<close>

definition matchReserve :: "bloodType \<Rightarrow> inventory_doc \<Rightarrow> bool" where
  "matchReserve bt d = (bloodType d = bt \<and> status d = available)"

definition availableUnits :: "bloodType \<Rightarrow> inventory_doc list \<Rightarrow> int" where
  "availableUnits bt docs = aggregateTotal (filter (matchReserve bt) docs)"

text \<open>The \<^verbatim>\<open>for (const item of inventoryItems)\<close> loop; \<open>u\<close> is \<^verbatim>\<open>unitsToReserve\<close>.\<close>

fun reserveLoop :: "clock \<Rightarrow> faults \<Rightarrow> inventory_doc list \<Rightarrow> int \<Rightarrow> nat \<Rightarrow> nat \<Rightarrow> inventory_doc list \<Rightarrow> loop_result" where
  "reserveLoop clk fails [] u k w docs = Completed k w docs"
| "reserveLoop clk fails (item # rest) u k w docs =
     (if u \<le> 0 then Completed k w docs
      else if units item \<le> u then
        (if fails w then WriteFailed docs
         else reserveLoop clk fails rest (js_sub u (units item)) k (Suc w)
                (updateOne (inv_id item) (\<lambda>d. d\<lparr>status := reserved\<rparr>) docs))
      else
        (if fails w then WriteFailed docs
         else
           let newItem =
                 \<lparr>inv_id = new_id docs, bloodType = bloodType item, units = u,
                  donorId = donorId item, collectionDate = collectionDate item,
                  expiryDate = expiryDate item, status = reserved,
                  createdAt = clk k, updatedAt = clk (Suc k)\<rparr>;
               docs1 = docs @ [newItem]
           in if fails (Suc w) then WriteFailed docs1
              else reserveLoop clk fails rest 0 (Suc (Suc k)) (Suc (Suc w))
                     (updateOne (inv_id item) (\<lambda>d. d\<lparr>units := js_sub (units item) u\<rparr>) docs1)))"

definition approve_reserve :: "clock \<Rightarrow> faults \<Rightarrow> (inventory_doc list \<Rightarrow> inventory_doc list) \<Rightarrow> nat \<Rightarrow> reserve_store \<Rightarrow> (error + reserve_request_doc) \<times> reserve_store" where
  "approve_reserve clk fails srt rid db =
     (case find (\<lambda>r. rsv_id r = rid) (rsv_requests db) of
        None \<Rightarrow> (Inl NotFound, db)
      | Some request \<Rightarrow>
          if availableUnits (rsv_bloodType request) (rsv_inventory db) < rsv_units request
          then (Inl (InsufficientStock None
                       (availableUnits (rsv_bloodType request) (rsv_inventory db))
                       (rsv_units request)), db)
          else
            (case reserveLoop clk fails
                    (srt (filter (matchReserve (rsv_bloodType request)) (rsv_inventory db)))
                    (rsv_units request) 0 0 (rsv_inventory db) of
               WriteFailed docs' \<Rightarrow> (Inl Unexpected, db\<lparr>rsv_inventory := docs'\<rparr>)
             | Completed k w docs' \<Rightarrow>
                 if fails w then (Inl Unexpected, db\<lparr>rsv_inventory := docs'\<rparr>)
                 else
                   let reqs' = map (\<lambda>r. if rsv_id r = rid
                                         then r\<lparr>rsv_status := approved,
                                                rsv_processedBy := Some ''System Admin'',
                                                rsv_updatedAt := clk k\<rparr>
                                         else r) (rsv_requests db)
                   in if fails (Suc w)
                      then (Inl Unexpected, db\<lparr>rsv_inventory := docs', rsv_requests := reqs'\<rparr>)
                      else
                        (Inr (request\<lparr>rsv_status := approved,
                                      rsv_processedBy := Some ''System Admin'',
                                      rsv_updatedAt := clk k\<rparr>),
                         db\<lparr>rsv_inventory := docs', rsv_requests := reqs',
                            recipients := map (\<lambda>c. if rcp_id c = recipientId request
                                                    then c\<lparr>rcp_status := approved,
                                                           rcp_updatedAt := clk (Suc k)\<rparr>
                                                    else c) (recipients db)\<rparr>)))"

section \<open>The saves of a run\<close>

text \<open>
  A second reading of the two handlers, for the statement about rejected writes: the
  saves a run issues, in the order of the source, when none of them is rejected. Each
  save is a function on the collection (in the loops) or on the store (in the handlers).
  \<open>applyWrites\<close> carries out a list of saves, \<open>firstFault fails n\<close> is the number of the
  first of \<open>n\<close> writes that the database rejects, and \<open>runWrites\<close> carries the saves out
  one after another, from write number \<open>w\<close> on, until one is rejected.
\<close>

definition applyWrites :: "('s \<Rightarrow> 's) list \<Rightarrow> 's \<Rightarrow> 's" where
  "applyWrites ws s = foldl (\<lambda>t wr. wr t) s ws"

definition firstFault :: "faults \<Rightarrow> nat \<Rightarrow> nat option" where
  "firstFault fails n = find fails [0..<n]"

fun runWrites :: "faults \<Rightarrow> nat \<Rightarrow> ('s \<Rightarrow> 's) list \<Rightarrow> 's \<Rightarrow> bool \<times> 's" where
  "runWrites fails w [] s = (True, s)"
| "runWrites fails w (wr # ws) s =
     (if fails w then (False, s) else runWrites fails (Suc w) ws (wr s))"

text \<open>The saves of the loop of \<^verbatim>\<open>server.js\<close>: one for a batch used whole, two for a split.\<close>

fun deductWrites :: "clock \<Rightarrow> inventory_doc list \<Rightarrow> int \<Rightarrow> nat \<Rightarrow> (inventory_doc list \<Rightarrow> inventory_doc list) list" where
  "deductWrites clk [] u k = []"
| "deductWrites clk (item # rest) u k =
     (if u \<le> 0 then []
      else if units item \<le> u then
        updateOne (inv_id item) (\<lambda>d. d\<lparr>status := used, updatedAt := clk k\<rparr>)
          # deductWrites clk rest (js_sub u (units item)) (Suc k)
      else
        [\<lambda>docs. docs @
            [\<lparr>inv_id = new_id docs, bloodType = bloodType item, units = u,
              donorId = donorId item, collectionDate = collectionDate item,
              expiryDate = expiryDate item, status = used,
              createdAt = createdAt item, updatedAt = clk k\<rparr>],
         updateOne (inv_id item)
           (\<lambda>d. d\<lparr>units := js_sub (units item) u, updatedAt := clk (Suc k)\<rparr>)])"

text \<open>The request as \<^verbatim>\<open>server.js\<close> saves and returns it, the clock read \<open>k\<close> times before.\<close>

definition fulfilledAt :: "clock \<Rightarrow> nat \<Rightarrow> request_doc \<Rightarrow> request_doc" where
  "fulfilledAt clk k r =
     r\<lparr>req_status := fulfilled, processedBy := Some ''System'',
       processedDate := Some (clk k), req_updatedAt := clk (Suc k)\<rparr>"

text \<open>The saves of the handler of \<^verbatim>\<open>server.js\<close>: those of the loop, then the request.\<close>

definition approveWrites :: "clock \<Rightarrow> (inventory_doc list \<Rightarrow> inventory_doc list) \<Rightarrow> nat \<Rightarrow> request_doc \<Rightarrow> store \<Rightarrow> (store \<Rightarrow> store) list" where
  "approveWrites clk srt rid request db =
     (let ws = deductWrites clk
                 (srt (filter (matchAvailable (req_bloodType request) (clk 1)) (inventory db)))
                 (req_units request) 2
      in map (\<lambda>wr s. s\<lparr>inventory := wr (inventory s)\<rparr>) ws @
         [\<lambda>s. s\<lparr>requests := map (\<lambda>r. if req_id r = rid
                                         then fulfilledAt clk (2 + length ws) r else r)
                                   (requests s)\<rparr>])"

text \<open>The saves of the loop of \<^verbatim>\<open>part_000\<close>, and the number of clock readings after it
  (a split reads the clock twice, for the defaults of the new document).\<close>

fun reserveWrites :: "clock \<Rightarrow> inventory_doc list \<Rightarrow> int \<Rightarrow> nat \<Rightarrow> (inventory_doc list \<Rightarrow> inventory_doc list) list" where
  "reserveWrites clk [] u k = []"
| "reserveWrites clk (item # rest) u k =
     (if u \<le> 0 then []
      else if units item \<le> u then
        updateOne (inv_id item) (\<lambda>d. d\<lparr>status := reserved\<rparr>)
          # reserveWrites clk rest (js_sub u (units item)) k
      else
        [\<lambda>docs. docs @
            [\<lparr>inv_id = new_id docs, bloodType = bloodType item, units = u,
              donorId = donorId item, collectionDate = collectionDate item,
              expiryDate = expiryDate item, status = reserved,
              createdAt = clk k, updatedAt = clk (Suc k)\<rparr>],
         updateOne (inv_id item) (\<lambda>d. d\<lparr>units := js_sub (units item) u\<rparr>)])"

fun reserveClock :: "inventory_doc list \<Rightarrow> int \<Rightarrow> nat \<Rightarrow> nat" where
  "reserveClock [] u k = k"
| "reserveClock (item # rest) u k =
     (if u \<le> 0 then k
      else if units item \<le> u then reserveClock rest (js_sub u (units item)) k
      else Suc (Suc k))"

definition approvedAt :: "clock \<Rightarrow> nat \<Rightarrow> reserve_request_doc \<Rightarrow> reserve_request_doc" where
  "approvedAt clk k r =
     r\<lparr>rsv_status := approved, rsv_processedBy := Some ''System Admin'',
       rsv_updatedAt := clk k\<rparr>"

text \<open>The saves of the handler of \<^verbatim>\<open>part_000\<close>: those of the loop, then the request,
  then the recipient.\<close>

definition approveReserveClock :: "(inventory_doc list \<Rightarrow> inventory_doc list) \<Rightarrow> reserve_request_doc \<Rightarrow> reserve_store \<Rightarrow> nat" where
  "approveReserveClock srt request db =
     reserveClock (srt (filter (matchReserve (rsv_bloodType request)) (rsv_inventory db)))
       (rsv_units request) 0"

definition approveReserveWrites :: "clock \<Rightarrow> (inventory_doc list \<Rightarrow> inventory_doc list) \<Rightarrow> nat \<Rightarrow> reserve_request_doc \<Rightarrow> reserve_store \<Rightarrow> (reserve_store \<Rightarrow> reserve_store) list" where
  "approveReserveWrites clk srt rid request db =
     map (\<lambda>wr s. s\<lparr>rsv_inventory := wr (rsv_inventory s)\<rparr>)
       (reserveWrites clk
          (srt (filter (matchReserve (rsv_bloodType request)) (rsv_inventory db)))
          (rsv_units request) 0) @
     [\<lambda>s. s\<lparr>rsv_requests := map (\<lambda>r. if rsv_id r = rid
                                         then approvedAt clk (approveReserveClock srt request db) r
                                         else r) (rsv_requests s)\<rparr>,
      \<lambda>s. s\<lparr>recipients := map (\<lambda>c. if rcp_id c = recipientId request
                                       then c\<lparr>rcp_status := approved,
                                              rcp_updatedAt := clk (Suc (approveReserveClock srt request db))\<rparr>
                                       else c) (recipients s)\<rparr>]"

section \<open>Notions used in the statements\<close>

text \<open>The units of a blood type held in a collection, whatever the status of the batch.\<close>

definition unitsOfType :: "bloodType \<Rightarrow> inventory_doc list \<Rightarrow> int" where
  "unitsOfType bt docs = sum_list (map units (filter (\<lambda>d. bloodType d = bt) docs))"

text \<open>
  A batch \<open>b\<close> of the collection before a run is consumed in the collection after it
  when its document has left status available or holds fewer units, and fully consumed
  (with target status \<open>tgt\<close>) when its document has that status.
\<close>

definition consumed :: "inventory_doc \<Rightarrow> inventory_doc list \<Rightarrow> bool" where
  "consumed b docs' =
     (case findInv (inv_id b) docs' of
        None \<Rightarrow> False
      | Some d \<Rightarrow> status d \<noteq> available \<or> units d < units b)"

definition fullyConsumed :: "inv_status \<Rightarrow> inventory_doc \<Rightarrow> inventory_doc list \<Rightarrow> bool" where
  "fullyConsumed tgt b docs' =
     (case findInv (inv_id b) docs' of None \<Rightarrow> False | Some d \<Rightarrow> status d = tgt)"

section \<open>Example stores\<close>

definition ex_clock :: clock where
  "ex_clock k = 100 + int k"

definition no_faults :: faults where
  "no_faults w = False"

definition ex_b1 :: inventory_doc where
  "ex_b1 = \<lparr>inv_id = 1, bloodType = A_pos, units = 3, donorId = None, collectionDate = 0,
            expiryDate = 500, status = available, createdAt = 10, updatedAt = 10\<rparr>"

definition ex_b2 :: inventory_doc where
  "ex_b2 = \<lparr>inv_id = 2, bloodType = A_pos, units = 4, donorId = Some 7, collectionDate = 5,
            expiryDate = 1000, status = available, createdAt = 20, updatedAt = 20\<rparr>"

definition ex_b3 :: inventory_doc where
  "ex_b3 = \<lparr>inv_id = 3, bloodType = O_neg, units = 3, donorId = None, collectionDate = 5,
            expiryDate = 800, status = available, createdAt = 30, updatedAt = 30\<rparr>"

text \<open>A batch whose expiry date has passed at \<open>ex_clock\<close> and that no sweep has marked yet.\<close>

definition ex_stale :: inventory_doc where
  "ex_stale = \<lparr>inv_id = 4, bloodType = B_pos, units = 2, donorId = None, collectionDate = 0,
               expiryDate = 50, status = available, createdAt = 5, updatedAt = 5\<rparr>"

text \<open>Two batches with the same expiry date; \<open>ex_tie1\<close> was created first.\<close>

definition ex_tie1 :: inventory_doc where
  "ex_tie1 = \<lparr>inv_id = 1, bloodType = AB_pos, units = 2, donorId = None, collectionDate = 0,
              expiryDate = 700, status = available, createdAt = 10, updatedAt = 10\<rparr>"

definition ex_tie2 :: inventory_doc where
  "ex_tie2 = \<lparr>inv_id = 2, bloodType = AB_pos, units = 2, donorId = None, collectionDate = 0,
              expiryDate = 700, status = available, createdAt = 20, updatedAt = 20\<rparr>"

definition ex_request :: "nat \<Rightarrow> bloodType \<Rightarrow> int \<Rightarrow> req_status \<Rightarrow> request_doc" where
  "ex_request i bt n st =
     \<lparr>req_id = i, patientName = ''Patient'', req_bloodType = bt, req_units = n,
      req_priority = High, hospital = ''General'', req_status = st, requestDate = 50,
      processedBy = None, processedDate = None, req_createdAt = 50, req_updatedAt = 50\<rparr>"

definition ex_reserve_request :: "nat \<Rightarrow> bloodType \<Rightarrow> int \<Rightarrow> req_status \<Rightarrow> reserve_request_doc" where
  "ex_reserve_request i bt n st =
     \<lparr>rsv_id = i, recipientId = 9, recipientName = ''Patient'', rsv_bloodType = bt,
      rsv_units = n, rsv_hospital = ''General'', urgency = High, rsv_status = st,
      rsv_notes = None, rsv_processedBy = None, rsv_createdAt = 50, rsv_updatedAt = 50\<rparr>"

definition ex_recipient :: recipient_doc where
  "ex_recipient =
     \<lparr>rcp_id = 9, rcp_name = ''Patient'', rcp_age = 40, rcp_bloodType = A_pos,
      rcp_phone = ''5550100'', rcp_hospital = ''General'', unitsRequired = 5,
      rcp_urgency = High, rcp_status = pending, rcp_createdAt = 50, rcp_updatedAt = 50\<rparr>"

text \<open>
  Request 1 asks for 5 units of A+ (3 and 4 are in stock), request 2 for 10 units of O-
  (3 are in stock), request 3 is already fulfilled.
\<close>

definition ex_store :: store where
  "ex_store =
     \<lparr>inventory = [ex_b2, ex_b1, ex_b3],
      requests = [ex_request 1 A_pos 5 pending, ex_request 2 O_neg 10 pending,
                  ex_request 3 A_pos 1 fulfilled]\<rparr>"

definition ex_reserve_store :: reserve_store where
  "ex_reserve_store =
     \<lparr>rsv_inventory = [ex_b2, ex_b1, ex_b3],
      rsv_requests = [ex_reserve_request 1 A_pos 5 pending, ex_reserve_request 2 O_neg 10 pending,
                      ex_reserve_request 3 A_pos 1 approved],
      recipients = [ex_recipient]\<rparr>"

text \<open>The stores that approving request 1 leaves when no write fails.\<close>

definition ex_request_fulfilled :: request_doc where
  "ex_request_fulfilled =
     (ex_request 1 A_pos 5 pending)
       \<lparr>req_status := fulfilled, processedBy := Some ''System'',
        processedDate := Some 105, req_updatedAt := 106\<rparr>"

definition ex_store_fulfilled :: store where
  "ex_store_fulfilled =
     \<lparr>inventory = [ex_b2\<lparr>units := 2, updatedAt := 104\<rparr>,
                   ex_b1\<lparr>status := used, updatedAt := 102\<rparr>,
                   ex_b3,
                   ex_b2\<lparr>inv_id := 4, units := 2, status := used, updatedAt := 103\<rparr>],
      requests = [ex_request_fulfilled, ex_request 2 O_neg 10 pending,
                  ex_request 3 A_pos 1 fulfilled]\<rparr>"

definition ex_request_approved :: reserve_request_doc where
  "ex_request_approved =
     (ex_reserve_request 1 A_pos 5 pending)
       \<lparr>rsv_status := approved, rsv_processedBy := Some ''System Admin'',
        rsv_updatedAt := 102\<rparr>"

definition ex_reserve_store_approved :: reserve_store where
  "ex_reserve_store_approved =
     \<lparr>rsv_inventory = [ex_b2\<lparr>units := 2\<rparr>,
                       ex_b1\<lparr>status := reserved\<rparr>,
                       ex_b3,
                       ex_b2\<lparr>inv_id := 4, units := 2, status := reserved,
                             createdAt := 100, updatedAt := 101\<rparr>],
      rsv_requests = [ex_request_approved, ex_reserve_request 2 O_neg 10 pending,
                      ex_reserve_request 3 A_pos 1 approved],
      recipients = [ex_recipient\<lparr>rcp_status := approved, rcp_updatedAt := 103\<rparr>]\<rparr>"

text \<open>A store whose two batches of AB+ expire at the same date, and a sort by expiry
  date that returns the documents of equal date in the reverse of their stored order.\<close>

definition ex_tie_store :: store where
  "ex_tie_store =
     \<lparr>inventory = [ex_tie1, ex_tie2], requests = [ex_request 1 AB_pos 2 pending]\<rparr>"

definition later_first :: "inventory_doc list \<Rightarrow> inventory_doc list" where
  "later_first docs = sort_key expiryDate (rev docs)"

text \<open>The database rejects the write numbered \<open>n\<close> and no other.\<close>

definition fault_at :: "nat \<Rightarrow> faults" where
  "fault_at n w = (w = n)"

text \<open>Stores whose only batch of B+ is \<open>ex_stale\<close>, with a pending request for 2 units of B+.\<close>

definition ex_stale_store :: store where
  "ex_stale_store =
     \<lparr>inventory = [ex_stale], requests = [ex_request 1 B_pos 2 pending]\<rparr>"

definition ex_stale_reserve_store :: reserve_store where
  "ex_stale_reserve_store =
     \<lparr>rsv_inventory = [ex_stale], rsv_requests = [ex_reserve_request 1 B_pos 2 pending],
      recipients = [ex_recipient]\<rparr>"

text \<open>A batch of \<open>2 ^ 54\<close> units of A-, with a pending request for 1 unit of A-.\<close>

definition ex_big :: inventory_doc where
  "ex_big = \<lparr>inv_id = 1, bloodType = A_neg, units = 18014398509481984, donorId = None,
             collectionDate = 0, expiryDate = 500, status = available,
             createdAt = 10, updatedAt = 10\<rparr>"

definition ex_big_store :: store where
  "ex_big_store =
     \<lparr>inventory = [ex_big], requests = [ex_request 1 A_neg 1 pending]\<rparr>"

text \<open>Batches of \<open>2 ^ 53 + 2\<close> units and of 1 unit of B-, with a pending request for
  \<open>2 ^ 53 + 4\<close> units of B-.\<close>

definition ex_round1 :: inventory_doc where
  "ex_round1 = \<lparr>inv_id = 1, bloodType = B_neg, units = 9007199254740994, donorId = None,
                collectionDate = 0, expiryDate = 500, status = available,
                createdAt = 10, updatedAt = 10\<rparr>"

definition ex_round2 :: inventory_doc where
  "ex_round2 = \<lparr>inv_id = 2, bloodType = B_neg, units = 1, donorId = None,
                collectionDate = 0, expiryDate = 1000, status = available,
                createdAt = 20, updatedAt = 20\<rparr>"

definition ex_round_store :: store where
  "ex_round_store =
     \<lparr>inventory = [ex_round1, ex_round2],
      requests = [ex_request 1 B_neg 9007199254740996 pending]\<rparr>"

section \<open>Lemmas about the store primitives and the two loops\<close>

lemma js_num_exact: "\<bar>x\<bar> \<le> maxExact \<Longrightarrow> js_num x = x"
  by (simp add: js_num_def)

lemma js_sub_exact: "0 < u \<Longrightarrow> u < a \<Longrightarrow> a \<le> maxExact \<Longrightarrow> js_sub a u = a - u"
  by (simp add: js_sub_def js_num_exact)

lemma new_id_greater: "d \<in> set docs \<Longrightarrow> inv_id d < new_id docs"
  by (induction docs) (auto simp: new_id_def)

lemma new_id_fresh: "d \<in> set docs \<Longrightarrow> inv_id d \<noteq> new_id docs"
  using new_id_greater by fastforce

lemma ids_updateOne:
  "(\<And>d. inv_id (f d) = inv_id d) \<Longrightarrow> map inv_id (updateOne i f docs) = map inv_id docs"
  by (induction docs) (auto simp: updateOne_def)

lemma ids_set_updateOne:
  assumes "\<And>d. inv_id (f d) = inv_id d"
  shows "inv_id ` set (updateOne i f docs) = inv_id ` set docs"
proof -
  have "set (map inv_id (updateOne i f docs)) = set (map inv_id docs)"
    by (simp only: ids_updateOne[of f, OF assms])
  then show ?thesis by (simp only: set_map)
qed

lemma updateOne_append: "updateOne i f (xs @ ys) = updateOne i f xs @ updateOne i f ys"
  by (simp add: updateOne_def)

lemma updateOne_other: "inv_id d \<noteq> i \<Longrightarrow> updateOne i f [d] = [d]"
  by (simp add: updateOne_def)

lemma new_id_updateOne:
  "(\<And>d. inv_id (f d) = inv_id d) \<Longrightarrow> new_id (updateOne i f docs) = new_id docs"
  by (induction docs) (auto simp: updateOne_def new_id_def)

lemma unitsOfType_append: "unitsOfType bt (xs @ ys) = unitsOfType bt xs + unitsOfType bt ys"
  by (simp add: unitsOfType_def)

lemma unitsOfType_updateOne_same:
  "(\<And>d. units (f d) = units d \<and> bloodType (f d) = bloodType d) \<Longrightarrow>
   unitsOfType bt (updateOne i f docs) = unitsOfType bt docs"
  by (induction docs) (auto simp: updateOne_def unitsOfType_def)

lemma updateOne_absent:
  "i \<notin> inv_id ` set docs \<Longrightarrow> updateOne i f docs = docs"
  by (induction docs) (auto simp: updateOne_def)

lemma unitsOfType_updateOne:
  "distinct (map inv_id docs) \<Longrightarrow> d \<in> set docs \<Longrightarrow> bloodType (f d) = bloodType d \<Longrightarrow>
   unitsOfType bt (updateOne (inv_id d) f docs) =
     unitsOfType bt docs + (if bloodType d = bt then units (f d) - units d else 0)"
proof (induction docs)
  case Nil
  then show ?case by simp
next
  case (Cons x xs)
  show ?case
  proof (cases "x = d")
    case True
    with Cons.prems have "inv_id d \<notin> inv_id ` set xs" by auto
    then have "updateOne (inv_id d) f xs = xs" by (rule updateOne_absent)
    then have "updateOne (inv_id d) f (x # xs) = f d # xs"
      using True by (simp add: updateOne_def)
    then show ?thesis using True Cons.prems(3) by (simp add: unitsOfType_def)
  next
    case False
    with Cons.prems have din: "d \<in> set xs" and ne: "inv_id x \<noteq> inv_id d" by auto
    have "updateOne (inv_id d) f (x # xs) = x # updateOne (inv_id d) f xs"
      using ne by (simp add: updateOne_def)
    moreover have "unitsOfType bt (updateOne (inv_id d) f xs) =
        unitsOfType bt xs + (if bloodType d = bt then units (f d) - units d else 0)"
      using Cons.IH Cons.prems din by simp
    ultimately show ?thesis by (simp add: unitsOfType_def)
  qed
qed

lemma deductLoop_done: "u \<le> 0 \<Longrightarrow> deductLoop clk fails items u k w docs = Completed k w docs"
  by (cases items) auto

lemma reserveLoop_done: "u \<le> 0 \<Longrightarrow> reserveLoop clk fails items u k w docs = Completed k w docs"
  by (cases items) auto

lemma split_units:
  assumes dist: "distinct (map inv_id docs)"
    and itin: "item \<in> set docs"
    and bt: "bloodType n = bloodType item" and un: "units n = u" and idn: "inv_id n = new_id docs"
    and f: "\<And>d. bloodType (f d) = bloodType d \<and> units (f d) = js_sub (units item) u"
    and u: "0 < u" "u < units item" "units item \<le> maxExact"
  shows "unitsOfType bt (updateOne (inv_id item) f (docs @ [n])) = unitsOfType bt docs"
proof -
  have "inv_id n \<noteq> inv_id item" using new_id_fresh[OF itin] idn by simp
  then have "updateOne (inv_id item) f (docs @ [n]) = updateOne (inv_id item) f docs @ [n]"
    by (simp add: updateOne_append updateOne_other)
  moreover have "unitsOfType bt (updateOne (inv_id item) f docs) =
      unitsOfType bt docs + (if bloodType item = bt then units (f item) - units item else 0)"
    using unitsOfType_updateOne[OF dist itin] f by simp
  ultimately show ?thesis
    using f bt un js_sub_exact[OF u]
    by (simp add: unitsOfType_append) (simp add: unitsOfType_def)
qed

lemma findInv_member:
  "distinct (map inv_id docs) \<Longrightarrow> d \<in> set docs \<Longrightarrow> findInv (inv_id d) docs = Some d"
  by (induction docs) (auto simp: findInv_def)

lemma findInv_updateOne_other:
  "(\<And>d. inv_id (f d) = inv_id d) \<Longrightarrow> i \<noteq> j \<Longrightarrow> findInv i (updateOne j f docs) = findInv i docs"
  by (induction docs) (auto simp: findInv_def updateOne_def)

lemma findInv_updateOne_same:
  "(\<And>d. inv_id (f d) = inv_id d) \<Longrightarrow> findInv i (updateOne i f docs) = map_option f (findInv i docs)"
  by (induction docs) (auto simp: findInv_def updateOne_def)

lemma findInv_append_old:
  "i \<in> inv_id ` set docs \<Longrightarrow> findInv i (docs @ ys) = findInv i docs"
  by (induction docs) (auto simp: findInv_def)

lemma updateOne_keeps:
  "d \<in> set docs \<Longrightarrow> inv_id d \<noteq> i \<Longrightarrow> d \<in> set (updateOne i f docs)"
  by (auto simp: updateOne_def)

lemma rest_in_store:
  assumes "distinct (map inv_id docs)" "set (item # rest) \<subseteq> set docs" "distinct (map inv_id (item # rest))"
  shows "set rest \<subseteq> set (updateOne (inv_id item) f docs)"
proof
  fix x assume x: "x \<in> set rest"
  then have "inv_id x \<in> set (map inv_id rest)" by simp
  moreover have "inv_id item \<notin> set (map inv_id rest)" using assms(3) by simp
  ultimately have "inv_id x \<noteq> inv_id item" by metis
  moreover have "x \<in> set docs" using x assms(2) by auto
  ultimately show "x \<in> set (updateOne (inv_id item) f docs)" by (rule updateOne_keeps[rotated])
qed

lemma deductLoop_units:
  "set items \<subseteq> set docs \<Longrightarrow> distinct (map inv_id docs) \<Longrightarrow> distinct (map inv_id items) \<Longrightarrow>
   deductLoop clk fails items u k w docs = Completed k' w' docs' \<Longrightarrow>
   \<forall>it\<in>set items. units it \<le> maxExact \<Longrightarrow>
   unitsOfType bt docs' = unitsOfType bt docs"
proof (induction items arbitrary: u k w docs)
  case Nil
  then show ?case by simp
next
  case (Cons item rest)
  have itin: "item \<in> set docs" using Cons.prems(1) by simp
  show ?case
  proof (cases "u \<le> 0")
    case True
    with Cons.prems show ?thesis by simp
  next
    case pos: False
    show ?thesis
    proof (cases "units item \<le> u")
      case True
      let ?f = "\<lambda>d. d\<lparr>status := used, updatedAt := clk k\<rparr>"
      let ?docs1 = "updateOne (inv_id item) ?f docs"
      from Cons.prems(4) pos True
      have run: "deductLoop clk fails rest (js_sub u (units item)) (Suc k) (Suc w) ?docs1 = Completed k' w' docs'"
        by (auto split: if_splits)
      have "set rest \<subseteq> set ?docs1"
        by (rule rest_in_store[OF Cons.prems(2) Cons.prems(1) Cons.prems(3)])
      moreover have "distinct (map inv_id ?docs1)" using Cons.prems(2) by (simp add: ids_updateOne)
      moreover have "distinct (map inv_id rest)" using Cons.prems(3) by simp
      moreover have "\<forall>it\<in>set rest. units it \<le> maxExact" using Cons.prems(5) by simp
      ultimately have "unitsOfType bt docs' = unitsOfType bt ?docs1"
        using Cons.IH run by blast
      then show ?thesis by (simp add: unitsOfType_updateOne_same)
    next
      case False
      with Cons.prems(4) pos have "docs' = updateOne (inv_id item)
           (\<lambda>d. d\<lparr>units := js_sub (units item) u, updatedAt := clk (Suc k)\<rparr>)
           (docs @ [\<lparr>inv_id = new_id docs, bloodType = bloodType item, units = u,
                  donorId = donorId item, collectionDate = collectionDate item,
                  expiryDate = expiryDate item, status = used,
                  createdAt = createdAt item, updatedAt = clk k\<rparr>])"
        by (auto simp: deductLoop_done Let_def split: if_splits)
      moreover have "0 < u" "u < units item" "units item \<le> maxExact"
        using pos False Cons.prems(5) by simp_all
      ultimately show ?thesis
        by (simp only:) (rule split_units[OF Cons.prems(2) itin], simp_all)
    qed
  qed
qed

lemma deductLoop_frame_id:
  "i \<notin> inv_id ` set items \<Longrightarrow> i \<in> inv_id ` set docs \<Longrightarrow> set items \<subseteq> set docs \<Longrightarrow>
   distinct (map inv_id docs) \<Longrightarrow> distinct (map inv_id items) \<Longrightarrow>
   findInv i (inv_of (deductLoop clk fails items u k w docs)) = findInv i docs"
proof (induction items arbitrary: u k w docs)
  case Nil
  then show ?case by simp
next
  case (Cons item rest)
  have ne: "i \<noteq> inv_id item" using Cons.prems(1) by auto
  have iin: "inv_id item \<in> inv_id ` set docs" using Cons.prems(3) by auto
  have step: "findInv i (inv_of (deductLoop clk fails rest u' k' w' (updateOne (inv_id item) f docs))) = findInv i docs"
    if f: "\<And>d. inv_id (f d) = inv_id d" for f u' k' w'
  proof -
    have "findInv i (inv_of (deductLoop clk fails rest u' k' w' (updateOne (inv_id item) f docs)))
        = findInv i (updateOne (inv_id item) f docs)"
    proof (rule Cons.IH)
      show "i \<notin> inv_id ` set rest" using Cons.prems(1) by auto
      show "i \<in> inv_id ` set (updateOne (inv_id item) f docs)"
        using Cons.prems(2) by (simp add: ids_set_updateOne[OF f])
      show "set rest \<subseteq> set (updateOne (inv_id item) f docs)"
        by (rule rest_in_store[OF Cons.prems(4) Cons.prems(3) Cons.prems(5)])
      show "distinct (map inv_id (updateOne (inv_id item) f docs))"
        using Cons.prems(4) by (simp add: ids_updateOne[OF f])
      show "distinct (map inv_id rest)" using Cons.prems(5) by simp
    qed
    then show ?thesis using ne by (simp add: findInv_updateOne_other[OF f])
  qed
  show ?case
  proof (cases "u \<le> 0 \<or> fails w")
    case True
    then show ?thesis by auto
  next
    case ok: False
    show ?thesis
    proof (cases "units item \<le> u")
      case True
      then show ?thesis using ok step[of "\<lambda>d. d\<lparr>status := used, updatedAt := clk k\<rparr>"] by simp
    next
      case False
      have "findInv i (updateOne (inv_id item) f (docs @ [n])) = findInv i docs"
        if "\<And>d. inv_id (f d) = inv_id d" for f n
        using that ne Cons.prems(2) by (simp add: findInv_updateOne_other findInv_append_old)
      then show ?thesis using ok False Cons.prems(2)
        by (simp add: Let_def deductLoop_done findInv_append_old)
    qed
  qed
qed


lemma deductLoop_order:
  "set items \<subseteq> set docs \<Longrightarrow> distinct (map inv_id docs) \<Longrightarrow> distinct (map inv_id items) \<Longrightarrow>
   items = pre @ x # post \<Longrightarrow>
   findInv (inv_id x) (inv_of (deductLoop clk fails items u k w docs)) \<noteq> Some x \<Longrightarrow>
   y \<in> set pre \<Longrightarrow>
   \<exists>d. findInv (inv_id y) (inv_of (deductLoop clk fails items u k w docs)) = Some d \<and> status d = used"
proof (induction items arbitrary: u k w docs pre)
  case Nil
  then show ?case by simp
next
  case (Cons item rest)
  let ?res = "inv_of (deductLoop clk fails (item # rest) u k w docs)"
  from Cons.prems(4,6) obtain pre' where pre: "pre = item # pre'" and rest: "rest = pre' @ x # post"
    by (cases pre) auto
  have xin: "x \<in> set docs" using Cons.prems(1) rest by auto
  have xold: "findInv (inv_id x) docs = Some x" by (rule findInv_member[OF Cons.prems(2) xin])
  have xid: "inv_id x \<in> inv_id ` set docs" using xin by blast
  have xne: "inv_id x \<noteq> inv_id item"
  proof -
    have "inv_id x \<in> set (map inv_id rest)" using rest by simp
    moreover have "inv_id item \<notin> set (map inv_id rest)" using Cons.prems(3) by simp
    ultimately show ?thesis by metis
  qed
  have itin: "item \<in> set docs" using Cons.prems(1) by simp
  show ?case
  proof (cases "u \<le> 0 \<or> fails w")
    case True
    then have "?res = docs" by auto
    with Cons.prems(5) xold show ?thesis by simp
  next
    case ok: False
    show ?thesis
    proof (cases "units item \<le> u")
      case True
      let ?f = "\<lambda>d. d\<lparr>status := used, updatedAt := clk k\<rparr>"
      let ?docs1 = "updateOne (inv_id item) ?f docs"
      let ?run = "deductLoop clk fails rest (js_sub u (units item)) (Suc k) (Suc w) ?docs1"
      have res: "?res = inv_of ?run" using ok True by simp
      have sub: "set rest \<subseteq> set ?docs1"
        by (rule rest_in_store[OF Cons.prems(2) Cons.prems(1) Cons.prems(3)])
      have d1: "distinct (map inv_id ?docs1)" using Cons.prems(2) by (simp add: ids_updateOne)
      have dr: "distinct (map inv_id rest)" using Cons.prems(3) by simp
      show ?thesis
      proof (cases "y = item")
        case True
        have "inv_id item \<notin> inv_id ` set rest" using Cons.prems(3) by simp
        moreover have "inv_id item \<in> inv_id ` set ?docs1"
          using itin by (simp add: ids_set_updateOne)
        ultimately have "findInv (inv_id item) (inv_of ?run) = findInv (inv_id item) ?docs1"
          using sub d1 dr by (rule deductLoop_frame_id)
        also have "\<dots> = map_option ?f (findInv (inv_id item) docs)"
          by (rule findInv_updateOne_same) simp
        also have "\<dots> = Some (?f item)"
          using findInv_member[OF Cons.prems(2) itin] by simp
        finally show ?thesis using True res by simp
      next
        case False
        then have yin: "y \<in> set pre'" using Cons.prems(6) pre by simp
        have "findInv (inv_id x) (inv_of ?run) \<noteq> Some x" using Cons.prems(5) res by simp
        from Cons.IH[OF sub d1 dr rest this yin] show ?thesis using res by simp
      qed
    next
      case False
      have "findInv (inv_id x) ?res = Some x"
        using ok False xold xid xne
        by (simp add: Let_def deductLoop_done findInv_append_old findInv_updateOne_other)
      with Cons.prems(5) show ?thesis by simp
    qed
  qed
qed


lemma updateOne_filter_other:
  "distinct (map inv_id docs) \<Longrightarrow> item \<in> set docs \<Longrightarrow> bloodType item = bt \<Longrightarrow>
   bloodType (f item) = bt \<Longrightarrow>
   filter (\<lambda>d. bloodType d \<noteq> bt) (updateOne (inv_id item) f docs) = filter (\<lambda>d. bloodType d \<noteq> bt) docs"
proof (induction docs)
  case Nil
  then show ?case by simp
next
  case (Cons x xs)
  show ?case
  proof (cases "x = item")
    case True
    with Cons.prems have "inv_id item \<notin> inv_id ` set xs" by auto
    then have "updateOne (inv_id item) f xs = xs" by (rule updateOne_absent)
    then have "updateOne (inv_id item) f (x # xs) = f item # xs"
      using True by (simp add: updateOne_def)
    then show ?thesis using True Cons.prems(3,4) by simp
  next
    case False
    with Cons.prems have din: "item \<in> set xs" and ne: "inv_id x \<noteq> inv_id item" by auto
    have "updateOne (inv_id item) f (x # xs) = x # updateOne (inv_id item) f xs"
      using ne by (simp add: updateOne_def)
    moreover have "filter (\<lambda>d. bloodType d \<noteq> bt) (updateOne (inv_id item) f xs) =
        filter (\<lambda>d. bloodType d \<noteq> bt) xs"
      using Cons.IH Cons.prems din by simp
    ultimately show ?thesis by simp
  qed
qed

lemma deductLoop_frame_type:
  "set items \<subseteq> set docs \<Longrightarrow> distinct (map inv_id docs) \<Longrightarrow> distinct (map inv_id items) \<Longrightarrow>
   \<forall>it\<in>set items. bloodType it = bt \<Longrightarrow>
   filter (\<lambda>d. bloodType d \<noteq> bt) (inv_of (deductLoop clk fails items u k w docs)) =
     filter (\<lambda>d. bloodType d \<noteq> bt) docs"
proof (induction items arbitrary: u k w docs)
  case Nil
  then show ?case by simp
next
  case (Cons item rest)
  have itin: "item \<in> set docs" using Cons.prems(1) by simp
  have bt: "bloodType item = bt" using Cons.prems(4) by simp
  have step: "filter (\<lambda>d. bloodType d \<noteq> bt)
        (inv_of (deductLoop clk fails rest u' k' w' (updateOne (inv_id item) f docs))) =
      filter (\<lambda>d. bloodType d \<noteq> bt) docs"
    if f: "\<And>d. inv_id (f d) = inv_id d" "\<And>d. bloodType (f d) = bloodType d" for f u' k' w'
  proof -
    have "filter (\<lambda>d. bloodType d \<noteq> bt)
        (inv_of (deductLoop clk fails rest u' k' w' (updateOne (inv_id item) f docs))) =
        filter (\<lambda>d. bloodType d \<noteq> bt) (updateOne (inv_id item) f docs)"
    proof (rule Cons.IH)
      show "set rest \<subseteq> set (updateOne (inv_id item) f docs)"
        by (rule rest_in_store[OF Cons.prems(2) Cons.prems(1) Cons.prems(3)])
      show "distinct (map inv_id (updateOne (inv_id item) f docs))"
        using Cons.prems(2) by (simp add: ids_updateOne[OF f(1)])
      show "distinct (map inv_id rest)" using Cons.prems(3) by simp
      show "\<forall>it\<in>set rest. bloodType it = bt" using Cons.prems(4) by simp
    qed
    also have "\<dots> = filter (\<lambda>d. bloodType d \<noteq> bt) docs"
      by (rule updateOne_filter_other[OF Cons.prems(2) itin bt]) (simp add: f(2) bt)
    finally show ?thesis .
  qed
  show ?case
  proof (cases "u \<le> 0 \<or> fails w")
    case True
    then show ?thesis by auto
  next
    case ok: False
    show ?thesis
    proof (cases "units item \<le> u")
      case True
      then show ?thesis using ok step[of "\<lambda>d. d\<lparr>status := used, updatedAt := clk k\<rparr>"] by simp
    next
      case False
      have ne: "inv_id n \<noteq> inv_id item" if "inv_id n = new_id docs" for n :: inventory_doc
        using new_id_fresh[OF itin] that by simp
      have "filter (\<lambda>d. bloodType d \<noteq> bt) (updateOne (inv_id item) f (docs @ [n])) =
          filter (\<lambda>d. bloodType d \<noteq> bt) docs"
        if "bloodType (f item) = bt" "inv_id n = new_id docs" "bloodType n = bt" for f n
        using that ne[OF that(2)] updateOne_filter_other[of docs item bt f, OF Cons.prems(2) itin bt]
        by (simp add: updateOne_append updateOne_other)
      then show ?thesis using ok False bt
        by (simp add: Let_def deductLoop_done)
    qed
  qed
qed

lemma deductLoop_completes:
  "\<forall>n. \<not> fails n \<Longrightarrow> \<exists>k' w' docs'. deductLoop clk fails items u k w docs = Completed k' w' docs'"
  by (induction items arbitrary: u k w docs) (simp_all add: Let_def)

lemma reserveLoop_units:
  "set items \<subseteq> set docs \<Longrightarrow> distinct (map inv_id docs) \<Longrightarrow> distinct (map inv_id items) \<Longrightarrow>
   reserveLoop clk fails items u k w docs = Completed k' w' docs' \<Longrightarrow>
   \<forall>it\<in>set items. units it \<le> maxExact \<Longrightarrow>
   unitsOfType bt docs' = unitsOfType bt docs"
proof (induction items arbitrary: u k w docs)
  case Nil
  then show ?case by simp
next
  case (Cons item rest)
  have itin: "item \<in> set docs" using Cons.prems(1) by simp
  show ?case
  proof (cases "u \<le> 0")
    case True
    with Cons.prems show ?thesis by simp
  next
    case pos: False
    show ?thesis
    proof (cases "units item \<le> u")
      case True
      let ?f = "\<lambda>d. d\<lparr>status := reserved\<rparr>"
      let ?docs1 = "updateOne (inv_id item) ?f docs"
      from Cons.prems(4) pos True
      have run: "reserveLoop clk fails rest (js_sub u (units item)) k (Suc w) ?docs1 = Completed k' w' docs'"
        by (auto split: if_splits)
      have "set rest \<subseteq> set ?docs1"
        by (rule rest_in_store[OF Cons.prems(2) Cons.prems(1) Cons.prems(3)])
      moreover have "distinct (map inv_id ?docs1)" using Cons.prems(2) by (simp add: ids_updateOne)
      moreover have "distinct (map inv_id rest)" using Cons.prems(3) by simp
      moreover have "\<forall>it\<in>set rest. units it \<le> maxExact" using Cons.prems(5) by simp
      ultimately have "unitsOfType bt docs' = unitsOfType bt ?docs1"
        using Cons.IH run by blast
      then show ?thesis by (simp add: unitsOfType_updateOne_same)
    next
      case False
      with Cons.prems(4) pos have "docs' = updateOne (inv_id item)
           (\<lambda>d. d\<lparr>units := js_sub (units item) u\<rparr>)
           (docs @ [\<lparr>inv_id = new_id docs, bloodType = bloodType item, units = u,
                  donorId = donorId item, collectionDate = collectionDate item,
                  expiryDate = expiryDate item, status = reserved,
                  createdAt = clk k, updatedAt = clk (Suc k)\<rparr>])"
        by (auto simp: reserveLoop_done Let_def split: if_splits)
      moreover have "0 < u" "u < units item" "units item \<le> maxExact"
        using pos False Cons.prems(5) by simp_all
      ultimately show ?thesis
        by (simp only:) (rule split_units[OF Cons.prems(2) itin], simp_all)
    qed
  qed
qed

lemma reserveLoop_frame_id:
  "i \<notin> inv_id ` set items \<Longrightarrow> i \<in> inv_id ` set docs \<Longrightarrow> set items \<subseteq> set docs \<Longrightarrow>
   distinct (map inv_id docs) \<Longrightarrow> distinct (map inv_id items) \<Longrightarrow>
   findInv i (inv_of (reserveLoop clk fails items u k w docs)) = findInv i docs"
proof (induction items arbitrary: u k w docs)
  case Nil
  then show ?case by simp
next
  case (Cons item rest)
  have ne: "i \<noteq> inv_id item" using Cons.prems(1) by auto
  have iin: "inv_id item \<in> inv_id ` set docs" using Cons.prems(3) by auto
  have step: "findInv i (inv_of (reserveLoop clk fails rest u' k' w' (updateOne (inv_id item) f docs))) = findInv i docs"
    if f: "\<And>d. inv_id (f d) = inv_id d" for f u' k' w'
  proof -
    have "findInv i (inv_of (reserveLoop clk fails rest u' k' w' (updateOne (inv_id item) f docs)))
        = findInv i (updateOne (inv_id item) f docs)"
    proof (rule Cons.IH)
      show "i \<notin> inv_id ` set rest" using Cons.prems(1) by auto
      show "i \<in> inv_id ` set (updateOne (inv_id item) f docs)"
        using Cons.prems(2) by (simp add: ids_set_updateOne[OF f])
      show "set rest \<subseteq> set (updateOne (inv_id item) f docs)"
        by (rule rest_in_store[OF Cons.prems(4) Cons.prems(3) Cons.prems(5)])
      show "distinct (map inv_id (updateOne (inv_id item) f docs))"
        using Cons.prems(4) by (simp add: ids_updateOne[OF f])
      show "distinct (map inv_id rest)" using Cons.prems(5) by simp
    qed
    then show ?thesis using ne by (simp add: findInv_updateOne_other[OF f])
  qed
  show ?case
  proof (cases "u \<le> 0 \<or> fails w")
    case True
    then show ?thesis by auto
  next
    case ok: False
    show ?thesis
    proof (cases "units item \<le> u")
      case True
      then show ?thesis using ok step[of "\<lambda>d. d\<lparr>status := reserved\<rparr>"] by simp
    next
      case False
      have "findInv i (updateOne (inv_id item) f (docs @ [n])) = findInv i docs"
        if "\<And>d. inv_id (f d) = inv_id d" for f n
        using that ne Cons.prems(2) by (simp add: findInv_updateOne_other findInv_append_old)
      then show ?thesis using ok False Cons.prems(2)
        by (simp add: Let_def reserveLoop_done findInv_append_old)
    qed
  qed
qed

lemma reserveLoop_order:
  "set items \<subseteq> set docs \<Longrightarrow> distinct (map inv_id docs) \<Longrightarrow> distinct (map inv_id items) \<Longrightarrow>
   items = pre @ x # post \<Longrightarrow>
   findInv (inv_id x) (inv_of (reserveLoop clk fails items u k w docs)) \<noteq> Some x \<Longrightarrow>
   y \<in> set pre \<Longrightarrow>
   \<exists>d. findInv (inv_id y) (inv_of (reserveLoop clk fails items u k w docs)) = Some d \<and> status d = reserved"
proof (induction items arbitrary: u k w docs pre)
  case Nil
  then show ?case by simp
next
  case (Cons item rest)
  let ?res = "inv_of (reserveLoop clk fails (item # rest) u k w docs)"
  from Cons.prems(4,6) obtain pre' where pre: "pre = item # pre'" and rest: "rest = pre' @ x # post"
    by (cases pre) auto
  have xin: "x \<in> set docs" using Cons.prems(1) rest by auto
  have xold: "findInv (inv_id x) docs = Some x" by (rule findInv_member[OF Cons.prems(2) xin])
  have xid: "inv_id x \<in> inv_id ` set docs" using xin by blast
  have xne: "inv_id x \<noteq> inv_id item"
  proof -
    have "inv_id x \<in> set (map inv_id rest)" using rest by simp
    moreover have "inv_id item \<notin> set (map inv_id rest)" using Cons.prems(3) by simp
    ultimately show ?thesis by metis
  qed
  have itin: "item \<in> set docs" using Cons.prems(1) by simp
  show ?case
  proof (cases "u \<le> 0 \<or> fails w")
    case True
    then have "?res = docs" by auto
    with Cons.prems(5) xold show ?thesis by simp
  next
    case ok: False
    show ?thesis
    proof (cases "units item \<le> u")
      case True
      let ?f = "\<lambda>d. d\<lparr>status := reserved\<rparr>"
      let ?docs1 = "updateOne (inv_id item) ?f docs"
      let ?run = "reserveLoop clk fails rest (js_sub u (units item)) k (Suc w) ?docs1"
      have res: "?res = inv_of ?run" using ok True by simp
      have sub: "set rest \<subseteq> set ?docs1"
        by (rule rest_in_store[OF Cons.prems(2) Cons.prems(1) Cons.prems(3)])
      have d1: "distinct (map inv_id ?docs1)" using Cons.prems(2) by (simp add: ids_updateOne)
      have dr: "distinct (map inv_id rest)" using Cons.prems(3) by simp
      show ?thesis
      proof (cases "y = item")
        case True
        have "inv_id item \<notin> inv_id ` set rest" using Cons.prems(3) by simp
        moreover have "inv_id item \<in> inv_id ` set ?docs1"
          using itin by (simp add: ids_set_updateOne)
        ultimately have "findInv (inv_id item) (inv_of ?run) = findInv (inv_id item) ?docs1"
          using sub d1 dr by (rule reserveLoop_frame_id)
        also have "\<dots> = map_option ?f (findInv (inv_id item) docs)"
          by (rule findInv_updateOne_same) simp
        also have "\<dots> = Some (?f item)"
          using findInv_member[OF Cons.prems(2) itin] by simp
        finally show ?thesis using True res by simp
      next
        case False
        then have yin: "y \<in> set pre'" using Cons.prems(6) pre by simp
        have "findInv (inv_id x) (inv_of ?run) \<noteq> Some x" using Cons.prems(5) res by simp
        from Cons.IH[OF sub d1 dr rest this yin] show ?thesis using res by simp
      qed
    next
      case False
      have "findInv (inv_id x) ?res = Some x"
        using ok False xold xid xne
        by (simp add: Let_def reserveLoop_done findInv_append_old findInv_updateOne_other)
      with Cons.prems(5) show ?thesis by simp
    qed
  qed
qed

lemma reserveLoop_frame_type:
  "set items \<subseteq> set docs \<Longrightarrow> distinct (map inv_id docs) \<Longrightarrow> distinct (map inv_id items) \<Longrightarrow>
   \<forall>it\<in>set items. bloodType it = bt \<Longrightarrow>
   filter (\<lambda>d. bloodType d \<noteq> bt) (inv_of (reserveLoop clk fails items u k w docs)) =
     filter (\<lambda>d. bloodType d \<noteq> bt) docs"
proof (induction items arbitrary: u k w docs)
  case Nil
  then show ?case by simp
next
  case (Cons item rest)
  have itin: "item \<in> set docs" using Cons.prems(1) by simp
  have bt: "bloodType item = bt" using Cons.prems(4) by simp
  have step: "filter (\<lambda>d. bloodType d \<noteq> bt)
        (inv_of (reserveLoop clk fails rest u' k' w' (updateOne (inv_id item) f docs))) =
      filter (\<lambda>d. bloodType d \<noteq> bt) docs"
    if f: "\<And>d. inv_id (f d) = inv_id d" "\<And>d. bloodType (f d) = bloodType d" for f u' k' w'
  proof -
    have "filter (\<lambda>d. bloodType d \<noteq> bt)
        (inv_of (reserveLoop clk fails rest u' k' w' (updateOne (inv_id item) f docs))) =
        filter (\<lambda>d. bloodType d \<noteq> bt) (updateOne (inv_id item) f docs)"
    proof (rule Cons.IH)
      show "set rest \<subseteq> set (updateOne (inv_id item) f docs)"
        by (rule rest_in_store[OF Cons.prems(2) Cons.prems(1) Cons.prems(3)])
      show "distinct (map inv_id (updateOne (inv_id item) f docs))"
        using Cons.prems(2) by (simp add: ids_updateOne[OF f(1)])
      show "distinct (map inv_id rest)" using Cons.prems(3) by simp
      show "\<forall>it\<in>set rest. bloodType it = bt" using Cons.prems(4) by simp
    qed
    also have "\<dots> = filter (\<lambda>d. bloodType d \<noteq> bt) docs"
      by (rule updateOne_filter_other[OF Cons.prems(2) itin bt]) (simp add: f(2) bt)
    finally show ?thesis .
  qed
  show ?case
  proof (cases "u \<le> 0 \<or> fails w")
    case True
    then show ?thesis by auto
  next
    case ok: False
    show ?thesis
    proof (cases "units item \<le> u")
      case True
      then show ?thesis using ok step[of "\<lambda>d. d\<lparr>status := reserved\<rparr>"] by simp
    next
      case False
      have ne: "inv_id n \<noteq> inv_id item" if "inv_id n = new_id docs" for n :: inventory_doc
        using new_id_fresh[OF itin] that by simp
      have "filter (\<lambda>d. bloodType d \<noteq> bt) (updateOne (inv_id item) f (docs @ [n])) =
          filter (\<lambda>d. bloodType d \<noteq> bt) docs"
        if "bloodType (f item) = bt" "inv_id n = new_id docs" "bloodType n = bt" for f n
        using that ne[OF that(2)] updateOne_filter_other[of docs item bt f, OF Cons.prems(2) itin bt]
        by (simp add: updateOne_append updateOne_other)
      then show ?thesis using ok False bt
        by (simp add: Let_def reserveLoop_done)
    qed
  qed
qed

lemma reserveLoop_completes:
  "\<forall>n. \<not> fails n \<Longrightarrow> \<exists>k' w' docs'. reserveLoop clk fails items u k w docs = Completed k' w' docs'"
  by (induction items arbitrary: u k w docs) (simp_all add: Let_def)

lemma approve_example:
  "approve ex_clock no_faults (sort_key expiryDate) 1 ex_store = (Inr ex_request_fulfilled, ex_store_fulfilled)"
  by code_simp

lemma approve_reserve_example:
  "approve_reserve ex_clock no_faults (sort_key expiryDate) 1 ex_reserve_store =
     (Inr ex_request_approved, ex_reserve_store_approved)"
  by code_simp

lemma ex_find:
  "find (\<lambda>r. req_id r = 1) (requests ex_store) = Some (ex_request 1 A_pos 5 pending)"
  "find (\<lambda>r. rsv_id r = 1) (rsv_requests ex_reserve_store) = Some (ex_reserve_request 1 A_pos 5 pending)"
  by (simp_all add: ex_store_def ex_reserve_store_def ex_request_def ex_reserve_request_def)

lemma ex_distinct:
  "distinct (map inv_id (inventory ex_store))"
  "distinct (map inv_id (rsv_inventory ex_reserve_store))"
  by (simp_all add: ex_store_def ex_reserve_store_def ex_b1_def ex_b2_def ex_b3_def)

lemma ex_sorted:
  "sortedByExpiry (sort_key expiryDate)
     (filter (matchAvailable (req_bloodType (ex_request 1 A_pos 5 pending)) (ex_clock 1)) (inventory ex_store))"
  "sortedByExpiry (sort_key expiryDate)
     (filter (matchReserve (rsv_bloodType (ex_reserve_request 1 A_pos 5 pending))) (rsv_inventory ex_reserve_store))"
  by (simp_all add: sortedByExpiry_def)

lemma sorted_items:
  assumes "sortedByExpiry srt (filter P docs)" and "distinct (map inv_id docs)"
  shows "set (srt (filter P docs)) \<subseteq> set docs"
    and "distinct (map inv_id (srt (filter P docs)))"
    and "set (srt (filter P docs)) = set (filter P docs)"
proof -
  have m: "mset (srt (filter P docs)) = mset (filter P docs)"
    using assms(1) by (simp add: sortedByExpiry_def)
  then show eq: "set (srt (filter P docs)) = set (filter P docs)" by (rule mset_eq_setD)
  then show "set (srt (filter P docs)) \<subseteq> set docs" by auto
  have "mset (map inv_id (srt (filter P docs))) = mset (map inv_id (filter P docs))"
    using m by (metis mset_map)
  moreover have "distinct (map inv_id (filter P docs))"
    using assms(2) by (rule distinct_map_filter)
  ultimately show "distinct (map inv_id (srt (filter P docs)))"
    by (metis mset_eq_imp_distinct_iff)
qed

lemma approve_success:
  assumes "approve clk fails srt rid db = (Inr r', db')"
    and "find (\<lambda>r. req_id r = rid) (requests db) = Some request"
  shows "\<exists>k w. deductLoop clk fails
            (srt (filter (matchAvailable (req_bloodType request) (clk 1)) (inventory db)))
            (req_units request) 2 0 (inventory db) = Completed k w (inventory db')"
  using assms by (auto simp: approve_def split: if_splits loop_result.splits)

lemma approve_reserve_success:
  assumes "approve_reserve clk fails srt rid db = (Inr r', db')"
    and "find (\<lambda>r. rsv_id r = rid) (rsv_requests db) = Some request"
  shows "\<exists>k w. reserveLoop clk fails
            (srt (filter (matchReserve (rsv_bloodType request)) (rsv_inventory db)))
            (rsv_units request) 0 0 (rsv_inventory db) = Completed k w (rsv_inventory db')"
  using assms by (auto simp: approve_reserve_def Let_def split: if_splits loop_result.splits)

lemma approve_inventory:
  "find (\<lambda>r. req_id r = rid) (requests db) = Some request \<Longrightarrow>
   inventory (snd (approve clk fails srt rid db)) = inventory db \<or>
   inventory (snd (approve clk fails srt rid db)) =
     inv_of (deductLoop clk fails
       (srt (filter (matchAvailable (req_bloodType request) (clk 1)) (inventory db)))
       (req_units request) 2 0 (inventory db))"
  by (auto simp: approve_def split: loop_result.splits)

lemma approve_reserve_inventory:
  "find (\<lambda>r. rsv_id r = rid) (rsv_requests db) = Some request \<Longrightarrow>
   rsv_inventory (snd (approve_reserve clk fails srt rid db)) = rsv_inventory db \<or>
   rsv_inventory (snd (approve_reserve clk fails srt rid db)) =
     inv_of (reserveLoop clk fails
       (srt (filter (matchReserve (rsv_bloodType request)) (rsv_inventory db)))
       (rsv_units request) 0 0 (rsv_inventory db))"
  by (auto simp: approve_reserve_def Let_def split: loop_result.splits)

lemma filter_other_requests:
  "(\<And>r. req_id (f r) = req_id r) \<Longrightarrow>
   filter (\<lambda>r. req_id r \<noteq> rid) (map (\<lambda>r. if req_id r = rid then f r else r) rs) =
   filter (\<lambda>r. req_id r \<noteq> rid) rs"
  by (induction rs) auto

lemma filter_other_reserve_requests:
  "(\<And>r. rsv_id (f r) = rsv_id r) \<Longrightarrow>
   filter (\<lambda>r. rsv_id r \<noteq> rid) (map (\<lambda>r. if rsv_id r = rid then f r else r) rs) =
   filter (\<lambda>r. rsv_id r \<noteq> rid) rs"
  by (induction rs) auto

lemma approve_requests:
  "filter (\<lambda>r. req_id r \<noteq> rid) (requests (snd (approve clk fails srt rid db))) =
   filter (\<lambda>r. req_id r \<noteq> rid) (requests db)"
  by (auto simp: approve_def filter_other_requests split: option.splits loop_result.splits)

lemma approve_reserve_requests:
  "filter (\<lambda>r. rsv_id r \<noteq> rid) (rsv_requests (snd (approve_reserve clk fails srt rid db))) =
   filter (\<lambda>r. rsv_id r \<noteq> rid) (rsv_requests db)"
  by (auto simp: approve_reserve_def Let_def filter_other_reserve_requests
      split: option.splits loop_result.splits)

lemma consumed_changed:
  "status b = available \<Longrightarrow> consumed b docs' \<Longrightarrow> findInv (inv_id b) docs' \<noteq> Some b"
  by (auto simp: consumed_def)

lemma earlier_is_before:
  assumes "sorted (map expiryDate items)" and "items = pre @ b # post"
    and "b' \<in> set items" and "expiryDate b' < expiryDate b"
  shows "b' \<in> set pre"
proof (rule ccontr)
  assume "b' \<notin> set pre"
  with assms(2,3,4) have "b' \<in> set post" by auto
  moreover have "\<forall>x\<in>set post. expiryDate b \<le> expiryDate x"
    using assms(1,2) by (simp add: sorted_append)
  ultimately show False using assms(4) by auto
qed

lemma approve_consumes_in_order:
  assumes f: "find (\<lambda>r. req_id r = rid) (requests db) = Some request"
    and d: "distinct (map inv_id (inventory db))"
    and s: "sortedByExpiry srt (filter (matchAvailable (req_bloodType request) (clk 1)) (inventory db))"
    and items: "srt (filter (matchAvailable (req_bloodType request) (clk 1)) (inventory db)) = pre @ b # post"
    and b': "b' \<in> set pre"
    and c: "consumed b (inventory (snd (approve clk fails srt rid db)))"
  shows "fullyConsumed used b' (inventory (snd (approve clk fails srt rid db)))"
proof -
  let ?items = "srt (filter (matchAvailable (req_bloodType request) (clk 1)) (inventory db))"
  let ?res = "inv_of (deductLoop clk fails ?items (req_units request) 2 0 (inventory db))"
  have bin: "b \<in> set ?items" using items by simp
  then have bm: "matchAvailable (req_bloodType request) (clk 1) b" "b \<in> set (inventory db)"
    using sorted_items(3)[OF s d] by auto
  then have av: "status b = available" by (simp add: matchAvailable_def)
  have ch: "findInv (inv_id b) (inventory (snd (approve clk fails srt rid db))) \<noteq> Some b"
    by (rule consumed_changed[OF av c])
  have old: "findInv (inv_id b) (inventory db) = Some b"
    by (rule findInv_member[OF d bm(2)])
  from approve_inventory[OF f, of clk fails srt] ch old
  have eq: "inventory (snd (approve clk fails srt rid db)) = ?res" by auto
  have "\<exists>x. findInv (inv_id b') ?res = Some x \<and> status x = used"
    using ch unfolding eq
    by (rule deductLoop_order[OF sorted_items(1)[OF s d] d sorted_items(2)[OF s d] items _ b'])
  then show ?thesis by (auto simp: fullyConsumed_def eq)
qed

lemma approve_reserve_consumes_in_order:
  assumes f: "find (\<lambda>r. rsv_id r = rid) (rsv_requests db) = Some request"
    and d: "distinct (map inv_id (rsv_inventory db))"
    and s: "sortedByExpiry srt (filter (matchReserve (rsv_bloodType request)) (rsv_inventory db))"
    and items: "srt (filter (matchReserve (rsv_bloodType request)) (rsv_inventory db)) = pre @ b # post"
    and b': "b' \<in> set pre"
    and c: "consumed b (rsv_inventory (snd (approve_reserve clk fails srt rid db)))"
  shows "fullyConsumed reserved b' (rsv_inventory (snd (approve_reserve clk fails srt rid db)))"
proof -
  let ?items = "srt (filter (matchReserve (rsv_bloodType request)) (rsv_inventory db))"
  let ?res = "inv_of (reserveLoop clk fails ?items (rsv_units request) 0 0 (rsv_inventory db))"
  have bin: "b \<in> set ?items" using items by simp
  then have bm: "matchReserve (rsv_bloodType request) b" "b \<in> set (rsv_inventory db)"
    using sorted_items(3)[OF s d] by auto
  then have av: "status b = available" by (simp add: matchReserve_def)
  have ch: "findInv (inv_id b) (rsv_inventory (snd (approve_reserve clk fails srt rid db))) \<noteq> Some b"
    by (rule consumed_changed[OF av c])
  have old: "findInv (inv_id b) (rsv_inventory db) = Some b"
    by (rule findInv_member[OF d bm(2)])
  from approve_reserve_inventory[OF f, of clk fails srt] ch old
  have eq: "rsv_inventory (snd (approve_reserve clk fails srt rid db)) = ?res" by auto
  have "\<exists>x. findInv (inv_id b') ?res = Some x \<and> status x = reserved"
    using ch unfolding eq
    by (rule reserveLoop_order[OF sorted_items(1)[OF s d] d sorted_items(2)[OF s d] items _ b'])
  then show ?thesis by (auto simp: fullyConsumed_def eq)
qed

lemma new_id_not_stored: "new_id docs \<notin> inv_id ` set docs"
proof
  assume "new_id docs \<in> inv_id ` set docs"
  then obtain d where "d \<in> set docs" "inv_id d = new_id docs" by auto
  then show False using new_id_fresh by blast
qed

lemma updateOne_item:
  assumes "distinct (map inv_id docs)" and "item \<in> set docs"
  shows "updateOne (inv_id item) f docs = map (\<lambda>d. if d = item then f d else d) docs"
proof -
  have "inv_id d = inv_id item \<longleftrightarrow> d = item" if "d \<in> set docs" for d
    using assms that by (metis distinct_map inj_onD)
  then show ?thesis by (simp add: updateOne_def cong: map_cong)
qed

lemma checkExpiredBlood_later:
  "now \<le> now' \<Longrightarrow>
   checkExpiredBlood now' (checkExpiredBlood now docs) = checkExpiredBlood now' docs"
  by (induction docs) (auto simp: checkExpiredBlood_def)

lemma find_upt_Suc:
  "find P [0..<Suc n] = (if P 0 then Some 0 else map_option Suc (find (\<lambda>i. P (Suc i)) [0..<n]))"
proof -
  have "[0..<Suc n] = 0 # map Suc [0..<n]"
    by (simp add: upt_conv_Cons map_Suc_upt del: upt_Suc)
  moreover have "find P (map Suc xs) = map_option Suc (find (\<lambda>i. P (Suc i)) xs)" for xs
    by (induction xs) auto
  ultimately show ?thesis by simp
qed

lemma runWrites_first:
  "runWrites fails w ws s =
     (case find (\<lambda>i. fails (w + i)) [0..<length ws] of
        None \<Rightarrow> (True, applyWrites ws s)
      | Some n \<Rightarrow> (False, applyWrites (take n ws) s))"
proof (induction ws arbitrary: w s)
  case Nil
  then show ?case by (simp add: applyWrites_def)
next
  case (Cons wr ws)
  show ?case
  proof (cases "fails w")
    case True
    then show ?thesis by (simp add: find_upt_Suc applyWrites_def del: upt_Suc)
  next
    case False
    then show ?thesis
      using Cons.IH[of "Suc w" "wr s"]
      by (simp add: find_upt_Suc applyWrites_def del: upt_Suc split: option.splits)
  qed
qed

lemma runWrites_append:
  "runWrites fails w (ws @ vs) s =
     (case runWrites fails w ws s of
        (True, s') \<Rightarrow> runWrites fails (w + length ws) vs s'
      | (False, s') \<Rightarrow> (False, s'))"
  by (induction ws arbitrary: w s) (auto split: prod.splits bool.splits)

lemma runWrites_inventory:
  "runWrites fails w (map (\<lambda>wr s. s\<lparr>inventory := wr (inventory s)\<rparr>) ws) s =
     (case runWrites fails w ws (inventory s) of (b, docs) \<Rightarrow> (b, s\<lparr>inventory := docs\<rparr>))"
  by (induction ws arbitrary: w s) auto

lemma runWrites_rsv_inventory:
  "runWrites fails w (map (\<lambda>wr s. s\<lparr>rsv_inventory := wr (rsv_inventory s)\<rparr>) ws) s =
     (case runWrites fails w ws (rsv_inventory s) of (b, docs) \<Rightarrow> (b, s\<lparr>rsv_inventory := docs\<rparr>))"
  by (induction ws arbitrary: w s) auto

lemma deductLoop_runWrites:
  "deductLoop clk fails items u k w docs =
     (case runWrites fails w (deductWrites clk items u k) docs of
        (True, docs') \<Rightarrow>
          Completed (k + length (deductWrites clk items u k))
            (w + length (deductWrites clk items u k)) docs'
      | (False, docs') \<Rightarrow> WriteFailed docs')"
proof (induction items arbitrary: u k w docs)
  case Nil
  then show ?case by simp
next
  case (Cons item rest)
  show ?case
  proof (cases "u \<le> 0")
    case True
    then show ?thesis by simp
  next
    case pos: False
    show ?thesis
    proof (cases "units item \<le> u")
      case True
      show ?thesis
        using pos True
          Cons.IH[of "js_sub u (units item)" "Suc k" "Suc w" "updateOne (inv_id item) (\<lambda>d. d\<lparr>status := used, updatedAt := clk k\<rparr>) docs"]
        by (simp split: prod.splits bool.splits)
    next
      case False
      then show ?thesis using pos by (simp add: Let_def deductLoop_done)
    qed
  qed
qed

lemma reserveLoop_runWrites:
  "reserveLoop clk fails items u k w docs =
     (case runWrites fails w (reserveWrites clk items u k) docs of
        (True, docs') \<Rightarrow>
          Completed (reserveClock items u k)
            (w + length (reserveWrites clk items u k)) docs'
      | (False, docs') \<Rightarrow> WriteFailed docs')"
proof (induction items arbitrary: u k w docs)
  case Nil
  then show ?case by simp
next
  case (Cons item rest)
  show ?case
  proof (cases "u \<le> 0")
    case True
    then show ?thesis by simp
  next
    case pos: False
    show ?thesis
    proof (cases "units item \<le> u")
      case True
      show ?thesis
        using pos True
          Cons.IH[of "js_sub u (units item)" "k" "Suc w" "updateOne (inv_id item) (\<lambda>d. d\<lparr>status := reserved\<rparr>) docs"]
        by (simp split: prod.splits bool.splits)
    next
      case False
      then show ?thesis using pos by (simp add: Let_def reserveLoop_done)
    qed
  qed
qed


lemma approve_runWrites:
  assumes f: "find (\<lambda>r. req_id r = rid) (requests db) = Some request"
    and p: "req_status request = pending"
    and s: "\<not> totalAvailable (req_bloodType request) (clk 0) (inventory db) < req_units request"
  shows "approve clk fails srt rid db =
     (case runWrites fails 0 (approveWrites clk srt rid request db) db of
        (True, db') \<Rightarrow>
          (Inr (fulfilledAt clk (Suc (length (approveWrites clk srt rid request db))) request), db')
      | (False, db') \<Rightarrow> (Inl Unexpected, db'))"
  using f p s
  by (simp add: approve_def approveWrites_def Let_def runWrites_append runWrites_inventory
      deductLoop_runWrites fulfilledAt_def split: prod.splits bool.splits)

lemma approve_reserve_runWrites:
  assumes f: "find (\<lambda>r. rsv_id r = rid) (rsv_requests db) = Some request"
    and s: "\<not> availableUnits (rsv_bloodType request) (rsv_inventory db) < rsv_units request"
  shows "approve_reserve clk fails srt rid db =
     (case runWrites fails 0 (approveReserveWrites clk srt rid request db) db of
        (True, db') \<Rightarrow> (Inr (approvedAt clk (approveReserveClock srt request db) request), db')
      | (False, db') \<Rightarrow> (Inl Unexpected, db'))"
  using f s
  by (simp add: approve_reserve_def approveReserveWrites_def approveReserveClock_def Let_def
      runWrites_append runWrites_rsv_inventory reserveLoop_runWrites approvedAt_def
      split: prod.splits bool.splits)

lemma aggregateTotal_exact: "\<bar>exactSum ms\<bar> \<le> maxExact \<Longrightarrow> aggregateTotal ms = exactSum ms"
  by (simp add: aggregateTotal_def exactSum_def js_num_exact)

section \<open>Claims\<close>

text \<open>
  C2. The claim fails in \<^verbatim>\<open>server.js\<close>: with available batches of \<open>2 ^ 53 + 2\<close> units
  and of 1 unit of B- the available quantity is \<open>2 ^ 53 + 3\<close>, less than the
  \<open>2 ^ 53 + 4\<close> units a pending request asks for; the total the handler receives is the
  double \<open>2 ^ 53 + 4\<close>, the test \<^verbatim>\<open>totalAvailable < request.units\<close> is false, and the
  request is fulfilled with both batches used.
\<close>

theorem approve_rounded_total_counterexample:
  "requests ex_round_store = [ex_request 1 B_neg 9007199254740996 pending] \<and>
   req_status (ex_request 1 B_neg 9007199254740996 pending) = pending \<and>
   exactSum (filter (matchAvailable B_neg (ex_clock 0)) (inventory ex_round_store)) =
     9007199254740995 \<and>
   exactSum (filter (matchAvailable B_neg (ex_clock 0)) (inventory ex_round_store)) <
     req_units (ex_request 1 B_neg 9007199254740996 pending) \<and>
   totalAvailable B_neg (ex_clock 0) (inventory ex_round_store) = 9007199254740996 \<and>
   fst (approve ex_clock no_faults (sort_key expiryDate) 1 ex_round_store) =
     Inr ((ex_request 1 B_neg 9007199254740996 pending)
            \<lparr>req_status := fulfilled, processedBy := Some ''System'',
             processedDate := Some 104, req_updatedAt := 105\<rparr>) \<and>
   inventory (snd (approve ex_clock no_faults (sort_key expiryDate) 1 ex_round_store)) =
     [ex_round1\<lparr>status := used, updatedAt := 102\<rparr>,
      ex_round2\<lparr>status := used, updatedAt := 103\<rparr>]"
  by code_simp

text \<open>
  C2, amended. When the units a request asks for exceed the available quantity of its
  blood type (the sum of the units of the batches the handler's query matches), and
  that quantity is at most \<open>2 ^ 53\<close> in absolute value, so that the total the handler
  receives is exact, approval answers with the insufficient-stock error, which carries
  the available and the required quantity, and returns the store as it was: no batch
  is changed and the request keeps its status. In \<^verbatim>\<open>server.js\<close> the request is pending
  at that point; \<^verbatim>\<open>part_000\<close> answers so for a request of any status.
\<close>

theorem approve_insufficient_stock:
  "(find (\<lambda>r. req_id r = rid) (requests db) = Some request \<longrightarrow>
    req_status request = pending \<longrightarrow>
    \<bar>exactSum (filter (matchAvailable (req_bloodType request) (clk 0)) (inventory db))\<bar> \<le> maxExact \<longrightarrow>
    exactSum (filter (matchAvailable (req_bloodType request) (clk 0)) (inventory db)) < req_units request \<longrightarrow>
    approve clk fails srt rid db =
      (Inl (InsufficientStock (Some (req_bloodType request))
              (exactSum (filter (matchAvailable (req_bloodType request) (clk 0)) (inventory db)))
              (req_units request)), db))
   \<and>
   (find (\<lambda>r. rsv_id r = rid') (rsv_requests rdb) = Some rrequest \<longrightarrow>
    \<bar>exactSum (filter (matchReserve (rsv_bloodType rrequest)) (rsv_inventory rdb))\<bar> \<le> maxExact \<longrightarrow>
    exactSum (filter (matchReserve (rsv_bloodType rrequest)) (rsv_inventory rdb)) < rsv_units rrequest \<longrightarrow>
    approve_reserve clk fails srt rid' rdb =
      (Inl (InsufficientStock None
              (exactSum (filter (matchReserve (rsv_bloodType rrequest)) (rsv_inventory rdb)))
              (rsv_units rrequest)), rdb))"
  by (simp add: approve_def approve_reserve_def totalAvailable_def availableUnits_def
      aggregateTotal_exact)

theorem approve_insufficient_stock_witness:
  "find (\<lambda>r. req_id r = 2) (requests ex_store) = Some (ex_request 2 O_neg 10 pending) \<and>
   req_status (ex_request 2 O_neg 10 pending) = pending \<and>
   \<bar>exactSum (filter (matchAvailable (req_bloodType (ex_request 2 O_neg 10 pending)) (ex_clock 0))
       (inventory ex_store))\<bar> \<le> maxExact \<and>
   exactSum (filter (matchAvailable (req_bloodType (ex_request 2 O_neg 10 pending)) (ex_clock 0))
       (inventory ex_store)) < req_units (ex_request 2 O_neg 10 pending) \<and>
   approve ex_clock no_faults (sort_key expiryDate) 2 ex_store =
     (Inl (InsufficientStock (Some O_neg) 3 10), ex_store) \<and>
   find (\<lambda>r. rsv_id r = 2) (rsv_requests ex_reserve_store) = Some (ex_reserve_request 2 O_neg 10 pending) \<and>
   \<bar>exactSum (filter (matchReserve (rsv_bloodType (ex_reserve_request 2 O_neg 10 pending)))
       (rsv_inventory ex_reserve_store))\<bar> \<le> maxExact \<and>
   exactSum (filter (matchReserve (rsv_bloodType (ex_reserve_request 2 O_neg 10 pending)))
       (rsv_inventory ex_reserve_store)) < rsv_units (ex_reserve_request 2 O_neg 10 pending) \<and>
   approve_reserve ex_clock no_faults (sort_key expiryDate) 2 ex_reserve_store =
     (Inl (InsufficientStock None 3 10), ex_reserve_store)"
proof -
  have f: "find (\<lambda>r. req_id r = 2) (requests ex_store) = Some (ex_request 2 O_neg 10 pending)"
    by (simp add: ex_store_def ex_request_def)
  have p: "req_status (ex_request 2 O_neg 10 pending) = pending"
    by (simp add: ex_request_def)
  have bt: "req_bloodType (ex_request 2 O_neg 10 pending) = O_neg"
    "req_units (ex_request 2 O_neg 10 pending) = 10"
    by (simp_all add: ex_request_def)
  have t: "exactSum (filter (matchAvailable (req_bloodType (ex_request 2 O_neg 10 pending)) (ex_clock 0))
       (inventory ex_store)) = 3"
    by code_simp
  have m: "\<bar>exactSum (filter (matchAvailable (req_bloodType (ex_request 2 O_neg 10 pending)) (ex_clock 0))
       (inventory ex_store))\<bar> \<le> maxExact"
    by code_simp
  have l: "exactSum (filter (matchAvailable (req_bloodType (ex_request 2 O_neg 10 pending)) (ex_clock 0))
       (inventory ex_store)) < req_units (ex_request 2 O_neg 10 pending)"
    by code_simp
  have f': "find (\<lambda>r. rsv_id r = 2) (rsv_requests ex_reserve_store) = Some (ex_reserve_request 2 O_neg 10 pending)"
    by (simp add: ex_reserve_store_def ex_reserve_request_def)
  have bt': "rsv_bloodType (ex_reserve_request 2 O_neg 10 pending) = O_neg"
    "rsv_units (ex_reserve_request 2 O_neg 10 pending) = 10"
    by (simp_all add: ex_reserve_request_def)
  have t': "exactSum (filter (matchReserve (rsv_bloodType (ex_reserve_request 2 O_neg 10 pending)))
       (rsv_inventory ex_reserve_store)) = 3"
    by code_simp
  have m': "\<bar>exactSum (filter (matchReserve (rsv_bloodType (ex_reserve_request 2 O_neg 10 pending)))
       (rsv_inventory ex_reserve_store))\<bar> \<le> maxExact"
    by code_simp
  have l': "exactSum (filter (matchReserve (rsv_bloodType (ex_reserve_request 2 O_neg 10 pending)))
       (rsv_inventory ex_reserve_store)) < rsv_units (ex_reserve_request 2 O_neg 10 pending)"
    by code_simp
  note inst = approve_insufficient_stock[where rid = 2 and db = ex_store
      and request = "ex_request 2 O_neg 10 pending" and clk = ex_clock and fails = no_faults
      and srt = "sort_key expiryDate" and rid' = 2 and rdb = ex_reserve_store
      and rrequest = "ex_reserve_request 2 O_neg 10 pending"]
  from inst f p m l have "approve ex_clock no_faults (sort_key expiryDate) 2 ex_store =
      (Inl (InsufficientStock (Some (req_bloodType (ex_request 2 O_neg 10 pending)))
              (exactSum (filter (matchAvailable (req_bloodType (ex_request 2 O_neg 10 pending)) (ex_clock 0))
                 (inventory ex_store)))
              (req_units (ex_request 2 O_neg 10 pending))), ex_store)"
    by blast
  then have a: "approve ex_clock no_faults (sort_key expiryDate) 2 ex_store =
     (Inl (InsufficientStock (Some O_neg) 3 10), ex_store)"
    using t bt by simp
  from inst f' m' l' have "approve_reserve ex_clock no_faults (sort_key expiryDate) 2 ex_reserve_store =
      (Inl (InsufficientStock None
              (exactSum (filter (matchReserve (rsv_bloodType (ex_reserve_request 2 O_neg 10 pending)))
                 (rsv_inventory ex_reserve_store)))
              (rsv_units (ex_reserve_request 2 O_neg 10 pending))), ex_reserve_store)"
    by blast
  then have b: "approve_reserve ex_clock no_faults (sort_key expiryDate) 2 ex_reserve_store =
     (Inl (InsufficientStock None 3 10), ex_reserve_store)"
    using t' bt' by simp
  show ?thesis by (intro conjI f p m l a f' m' l' b)
qed

text \<open>
  C8. The expiry sweep is idempotent for a given reading \<open>now\<close> of the clock, it keeps
  the number of documents, and the document at each position becomes expired exactly
  when it was available with an expiry date before \<open>now\<close>, and is unchanged otherwise.
  (The function reads the clock itself; a second run at a later reading leaves what one
  run at the later reading leaves, \<open>checkExpiredBlood_later\<close>.)
\<close>

theorem checkExpiredBlood_idempotent:
  "checkExpiredBlood now (checkExpiredBlood now docs) = checkExpiredBlood now docs \<and>
   length (checkExpiredBlood now docs) = length docs \<and>
   (\<forall>i < length docs.
      checkExpiredBlood now docs ! i =
        (if status (docs ! i) = available \<and> expiryDate (docs ! i) < now
         then (docs ! i)\<lparr>status := expired\<rparr> else docs ! i))"
  by (auto simp: checkExpiredBlood_def)

theorem checkExpiredBlood_idempotent_witness:
  "(0::nat) < length [ex_stale, ex_b1] \<and>
   checkExpiredBlood 100 [ex_stale, ex_b1] ! 0 = ex_stale\<lparr>status := expired\<rparr> \<and>
   checkExpiredBlood 100 (checkExpiredBlood 100 [ex_stale, ex_b1]) = [ex_stale\<lparr>status := expired\<rparr>, ex_b1]"
proof -
  have l: "(0::nat) < length [ex_stale, ex_b1]" by simp
  note inst = checkExpiredBlood_idempotent[of 100 "[ex_stale, ex_b1]"]
  have c: "checkExpiredBlood 100 [ex_stale, ex_b1] = [ex_stale\<lparr>status := expired\<rparr>, ex_b1]"
    by (simp add: checkExpiredBlood_def ex_stale_def ex_b1_def)
  from inst l have "checkExpiredBlood 100 [ex_stale, ex_b1] ! 0 =
        (if status ([ex_stale, ex_b1] ! 0) = available \<and> expiryDate ([ex_stale, ex_b1] ! 0) < 100
         then ([ex_stale, ex_b1] ! 0)\<lparr>status := expired\<rparr> else [ex_stale, ex_b1] ! 0)"
    by blast
  then have a: "checkExpiredBlood 100 [ex_stale, ex_b1] ! 0 = ex_stale\<lparr>status := expired\<rparr>"
    by (simp add: ex_stale_def)
  from inst have "checkExpiredBlood 100 (checkExpiredBlood 100 [ex_stale, ex_b1]) = checkExpiredBlood 100 [ex_stale, ex_b1]"
    by blast
  then have b: "checkExpiredBlood 100 (checkExpiredBlood 100 [ex_stale, ex_b1]) = [ex_stale\<lparr>status := expired\<rparr>, ex_b1]"
    by (simp only: c)
  show ?thesis by (intro conjI l a b)
qed

text \<open>
  C1. The claim fails: the only batch of A- holds \<open>2 ^ 54\<close> units and a pending request
  asks for 1 unit. The handler of \<^verbatim>\<open>server.js\<close> splits the batch; the new used batch
  holds 1 unit and \<^verbatim>\<open>item.units -= unitsToDeduct\<close> leaves the double nearest to
  \<open>2 ^ 54 - 1\<close>, which is \<open>2 ^ 54\<close>. The units of A- have grown by one.
\<close>

theorem approve_rounding_counterexample:
  "fst (approve ex_clock no_faults (sort_key expiryDate) 1 ex_big_store) =
     Inr ((ex_request 1 A_neg 1 pending)
            \<lparr>req_status := fulfilled, processedBy := Some ''System'',
             processedDate := Some 104, req_updatedAt := 105\<rparr>) \<and>
   inventory (snd (approve ex_clock no_faults (sort_key expiryDate) 1 ex_big_store)) =
     [ex_big\<lparr>updatedAt := 103\<rparr>,
      ex_big\<lparr>inv_id := 2, units := 1, status := used, updatedAt := 102\<rparr>] \<and>
   unitsOfType A_neg (inventory ex_big_store) = 18014398509481984 \<and>
   unitsOfType A_neg (inventory (snd (approve ex_clock no_faults (sort_key expiryDate) 1 ex_big_store))) =
     18014398509481985"
  by code_simp

text \<open>
  C1, amended. When every batch the handler's sorted query matches holds at most
  \<open>2 ^ 53\<close> units, a successful approval leaves the sum of the units of every blood type,
  taken over all batches whatever their status, as it was; in particular that of the
  request's blood type. A split then neither loses nor duplicates units. The store is
  taken with pairwise distinct \<^verbatim>\<open>_id\<close>s, and the sorted query to return the matching
  documents in ascending order of expiry date.
\<close>

theorem approve_conserves_units:
  "(find (\<lambda>r. req_id r = rid) (requests db) = Some request \<longrightarrow>
    distinct (map inv_id (inventory db)) \<longrightarrow>
    sortedByExpiry srt (filter (matchAvailable (req_bloodType request) (clk 1)) (inventory db)) \<longrightarrow>
    (\<forall>d\<in>set (filter (matchAvailable (req_bloodType request) (clk 1)) (inventory db)).
       units d \<le> maxExact) \<longrightarrow>
    approve clk fails srt rid db = (Inr r', db') \<longrightarrow>
    unitsOfType bt (inventory db') = unitsOfType bt (inventory db))
   \<and>
   (find (\<lambda>r. rsv_id r = rid') (rsv_requests rdb) = Some rrequest \<longrightarrow>
    distinct (map inv_id (rsv_inventory rdb)) \<longrightarrow>
    sortedByExpiry srt' (filter (matchReserve (rsv_bloodType rrequest)) (rsv_inventory rdb)) \<longrightarrow>
    (\<forall>d\<in>set (filter (matchReserve (rsv_bloodType rrequest)) (rsv_inventory rdb)).
       units d \<le> maxExact) \<longrightarrow>
    approve_reserve clk' fails' srt' rid' rdb = (Inr rr', rdb') \<longrightarrow>
    unitsOfType bt (rsv_inventory rdb') = unitsOfType bt (rsv_inventory rdb))"
proof (intro conjI impI)
  assume f: "find (\<lambda>r. req_id r = rid) (requests db) = Some request"
    and d: "distinct (map inv_id (inventory db))"
    and s: "sortedByExpiry srt (filter (matchAvailable (req_bloodType request) (clk 1)) (inventory db))"
    and m: "\<forall>d\<in>set (filter (matchAvailable (req_bloodType request) (clk 1)) (inventory db)).
       units d \<le> maxExact"
    and a: "approve clk fails srt rid db = (Inr r', db')"
  from approve_success[OF a f] obtain k w where
    run: "deductLoop clk fails
       (srt (filter (matchAvailable (req_bloodType request) (clk 1)) (inventory db)))
       (req_units request) 2 0 (inventory db) = Completed k w (inventory db')"
    by blast
  show "unitsOfType bt (inventory db') = unitsOfType bt (inventory db)"
    using m by (intro deductLoop_units[OF sorted_items(1)[OF s d] d sorted_items(2)[OF s d] run])
      (simp only: sorted_items(3)[OF s d])
next
  assume f: "find (\<lambda>r. rsv_id r = rid') (rsv_requests rdb) = Some rrequest"
    and d: "distinct (map inv_id (rsv_inventory rdb))"
    and s: "sortedByExpiry srt' (filter (matchReserve (rsv_bloodType rrequest)) (rsv_inventory rdb))"
    and m: "\<forall>d\<in>set (filter (matchReserve (rsv_bloodType rrequest)) (rsv_inventory rdb)).
       units d \<le> maxExact"
    and a: "approve_reserve clk' fails' srt' rid' rdb = (Inr rr', rdb')"
  from approve_reserve_success[OF a f] obtain k w where
    run: "reserveLoop clk' fails'
       (srt' (filter (matchReserve (rsv_bloodType rrequest)) (rsv_inventory rdb)))
       (rsv_units rrequest) 0 0 (rsv_inventory rdb) = Completed k w (rsv_inventory rdb')"
    by blast
  show "unitsOfType bt (rsv_inventory rdb') = unitsOfType bt (rsv_inventory rdb)"
    using m by (intro reserveLoop_units[OF sorted_items(1)[OF s d] d sorted_items(2)[OF s d] run])
      (simp only: sorted_items(3)[OF s d])
qed

theorem approve_conserves_units_witness:
  "find (\<lambda>r. req_id r = 1) (requests ex_store) = Some (ex_request 1 A_pos 5 pending) \<and>
   distinct (map inv_id (inventory ex_store)) \<and>
   sortedByExpiry (sort_key expiryDate)
     (filter (matchAvailable (req_bloodType (ex_request 1 A_pos 5 pending)) (ex_clock 1)) (inventory ex_store)) \<and>
   filter (matchAvailable (req_bloodType (ex_request 1 A_pos 5 pending)) (ex_clock 1))
     (inventory ex_store) = [ex_b2, ex_b1] \<and>
   units ex_b2 \<le> maxExact \<and> units ex_b1 \<le> maxExact \<and>
   approve ex_clock no_faults (sort_key expiryDate) 1 ex_store = (Inr ex_request_fulfilled, ex_store_fulfilled) \<and>
   unitsOfType A_pos (inventory ex_store_fulfilled) = unitsOfType A_pos (inventory ex_store) \<and>
   find (\<lambda>r. rsv_id r = 1) (rsv_requests ex_reserve_store) = Some (ex_reserve_request 1 A_pos 5 pending) \<and>
   distinct (map inv_id (rsv_inventory ex_reserve_store)) \<and>
   sortedByExpiry (sort_key expiryDate)
     (filter (matchReserve (rsv_bloodType (ex_reserve_request 1 A_pos 5 pending))) (rsv_inventory ex_reserve_store)) \<and>
   filter (matchReserve (rsv_bloodType (ex_reserve_request 1 A_pos 5 pending)))
     (rsv_inventory ex_reserve_store) = [ex_b2, ex_b1] \<and>
   approve_reserve ex_clock no_faults (sort_key expiryDate) 1 ex_reserve_store =
     (Inr ex_request_approved, ex_reserve_store_approved) \<and>
   unitsOfType A_pos (rsv_inventory ex_reserve_store_approved) = unitsOfType A_pos (rsv_inventory ex_reserve_store)"
proof -
  note inst = approve_conserves_units[where rid = 1 and db = ex_store
      and request = "ex_request 1 A_pos 5 pending" and clk = ex_clock and fails = no_faults
      and srt = "sort_key expiryDate" and r' = ex_request_fulfilled and db' = ex_store_fulfilled
      and bt = A_pos and rid' = 1 and rdb = ex_reserve_store
      and rrequest = "ex_reserve_request 1 A_pos 5 pending" and clk' = ex_clock
      and fails' = no_faults and srt' = "sort_key expiryDate" and rr' = ex_request_approved
      and rdb' = ex_reserve_store_approved]
  have q: "filter (matchAvailable (req_bloodType (ex_request 1 A_pos 5 pending)) (ex_clock 1))
      (inventory ex_store) = [ex_b2, ex_b1]"
    by code_simp
  have q': "filter (matchReserve (rsv_bloodType (ex_reserve_request 1 A_pos 5 pending)))
      (rsv_inventory ex_reserve_store) = [ex_b2, ex_b1]"
    by code_simp
  have u: "units ex_b2 \<le> maxExact" "units ex_b1 \<le> maxExact"
    by code_simp+
  have m: "\<forall>d\<in>set (filter (matchAvailable (req_bloodType (ex_request 1 A_pos 5 pending)) (ex_clock 1))
               (inventory ex_store)). units d \<le> maxExact"
    using u by (simp only: q) simp
  have m': "\<forall>d\<in>set (filter (matchReserve (rsv_bloodType (ex_reserve_request 1 A_pos 5 pending)))
               (rsv_inventory ex_reserve_store)). units d \<le> maxExact"
    using u by (simp only: q') simp
  have a: "unitsOfType A_pos (inventory ex_store_fulfilled) = unitsOfType A_pos (inventory ex_store)"
    using inst ex_find(1) ex_distinct(1) ex_sorted(1) m approve_example by blast
  have b: "unitsOfType A_pos (rsv_inventory ex_reserve_store_approved) = unitsOfType A_pos (rsv_inventory ex_reserve_store)"
    using inst ex_find(2) ex_distinct(2) ex_sorted(2) m' approve_reserve_example by blast
  show ?thesis
    by (intro conjI a b q q' u ex_find ex_distinct ex_sorted approve_example approve_reserve_example)
qed

text \<open>
  C10. Whatever the outcome of an approval, the batches of every blood type other than
  the request's are the same documents before and after it (none changed, none
  created), and so are the requests other than the approved one. The store is taken
  with pairwise distinct \<^verbatim>\<open>_id\<close>s, and the sorted query to return the matching
  documents in ascending order of expiry date.
\<close>

theorem approve_frame:
  "(find (\<lambda>r. req_id r = rid) (requests db) = Some request \<longrightarrow>
    distinct (map inv_id (inventory db)) \<longrightarrow>
    sortedByExpiry srt (filter (matchAvailable (req_bloodType request) (clk 1)) (inventory db)) \<longrightarrow>
    filter (\<lambda>d. bloodType d \<noteq> req_bloodType request) (inventory (snd (approve clk fails srt rid db))) =
      filter (\<lambda>d. bloodType d \<noteq> req_bloodType request) (inventory db) \<and>
    filter (\<lambda>r. req_id r \<noteq> rid) (requests (snd (approve clk fails srt rid db))) =
      filter (\<lambda>r. req_id r \<noteq> rid) (requests db))
   \<and>
   (find (\<lambda>r. rsv_id r = rid') (rsv_requests rdb) = Some rrequest \<longrightarrow>
    distinct (map inv_id (rsv_inventory rdb)) \<longrightarrow>
    sortedByExpiry srt' (filter (matchReserve (rsv_bloodType rrequest)) (rsv_inventory rdb)) \<longrightarrow>
    filter (\<lambda>d. bloodType d \<noteq> rsv_bloodType rrequest)
        (rsv_inventory (snd (approve_reserve clk' fails' srt' rid' rdb))) =
      filter (\<lambda>d. bloodType d \<noteq> rsv_bloodType rrequest) (rsv_inventory rdb) \<and>
    filter (\<lambda>r. rsv_id r \<noteq> rid') (rsv_requests (snd (approve_reserve clk' fails' srt' rid' rdb))) =
      filter (\<lambda>r. rsv_id r \<noteq> rid') (rsv_requests rdb))"
proof (intro conjI impI)
  assume f: "find (\<lambda>r. req_id r = rid) (requests db) = Some request"
    and d: "distinct (map inv_id (inventory db))"
    and s: "sortedByExpiry srt (filter (matchAvailable (req_bloodType request) (clk 1)) (inventory db))"
  let ?items = "srt (filter (matchAvailable (req_bloodType request) (clk 1)) (inventory db))"
  have "\<forall>it\<in>set ?items. bloodType it = req_bloodType request"
    using sorted_items(3)[OF s d] by (simp add: matchAvailable_def)
  then have "filter (\<lambda>d. bloodType d \<noteq> req_bloodType request)
        (inv_of (deductLoop clk fails ?items (req_units request) 2 0 (inventory db))) =
      filter (\<lambda>d. bloodType d \<noteq> req_bloodType request) (inventory db)"
    by (rule deductLoop_frame_type[OF sorted_items(1)[OF s d] d sorted_items(2)[OF s d]])
  then show "filter (\<lambda>d. bloodType d \<noteq> req_bloodType request) (inventory (snd (approve clk fails srt rid db))) =
      filter (\<lambda>d. bloodType d \<noteq> req_bloodType request) (inventory db)"
    using approve_inventory[OF f, of clk fails srt] by auto
  show "filter (\<lambda>r. req_id r \<noteq> rid) (requests (snd (approve clk fails srt rid db))) =
      filter (\<lambda>r. req_id r \<noteq> rid) (requests db)"
    by (rule approve_requests)
next
  assume f: "find (\<lambda>r. rsv_id r = rid') (rsv_requests rdb) = Some rrequest"
    and d: "distinct (map inv_id (rsv_inventory rdb))"
    and s: "sortedByExpiry srt' (filter (matchReserve (rsv_bloodType rrequest)) (rsv_inventory rdb))"
  let ?items = "srt' (filter (matchReserve (rsv_bloodType rrequest)) (rsv_inventory rdb))"
  have "\<forall>it\<in>set ?items. bloodType it = rsv_bloodType rrequest"
    using sorted_items(3)[OF s d] by (simp add: matchReserve_def)
  then have "filter (\<lambda>d. bloodType d \<noteq> rsv_bloodType rrequest)
        (inv_of (reserveLoop clk' fails' ?items (rsv_units rrequest) 0 0 (rsv_inventory rdb))) =
      filter (\<lambda>d. bloodType d \<noteq> rsv_bloodType rrequest) (rsv_inventory rdb)"
    by (rule reserveLoop_frame_type[OF sorted_items(1)[OF s d] d sorted_items(2)[OF s d]])
  then show "filter (\<lambda>d. bloodType d \<noteq> rsv_bloodType rrequest)
        (rsv_inventory (snd (approve_reserve clk' fails' srt' rid' rdb))) =
      filter (\<lambda>d. bloodType d \<noteq> rsv_bloodType rrequest) (rsv_inventory rdb)"
    using approve_reserve_inventory[OF f, of clk' fails' srt'] by auto
  show "filter (\<lambda>r. rsv_id r \<noteq> rid') (rsv_requests (snd (approve_reserve clk' fails' srt' rid' rdb))) =
      filter (\<lambda>r. rsv_id r \<noteq> rid') (rsv_requests rdb)"
    by (rule approve_reserve_requests)
qed

theorem approve_frame_witness:
  "find (\<lambda>r. req_id r = 1) (requests ex_store) = Some (ex_request 1 A_pos 5 pending) \<and>
   distinct (map inv_id (inventory ex_store)) \<and>
   sortedByExpiry (sort_key expiryDate)
     (filter (matchAvailable (req_bloodType (ex_request 1 A_pos 5 pending)) (ex_clock 1)) (inventory ex_store)) \<and>
   filter (\<lambda>d. bloodType d \<noteq> A_pos) (inventory ex_store_fulfilled) = [ex_b3] \<and>
   filter (\<lambda>r. req_id r \<noteq> 1) (requests ex_store_fulfilled) =
     [ex_request 2 O_neg 10 pending, ex_request 3 A_pos 1 fulfilled] \<and>
   find (\<lambda>r. rsv_id r = 1) (rsv_requests ex_reserve_store) = Some (ex_reserve_request 1 A_pos 5 pending) \<and>
   distinct (map inv_id (rsv_inventory ex_reserve_store)) \<and>
   sortedByExpiry (sort_key expiryDate)
     (filter (matchReserve (rsv_bloodType (ex_reserve_request 1 A_pos 5 pending))) (rsv_inventory ex_reserve_store)) \<and>
   filter (\<lambda>d. bloodType d \<noteq> A_pos) (rsv_inventory ex_reserve_store_approved) = [ex_b3] \<and>
   filter (\<lambda>r. rsv_id r \<noteq> 1) (rsv_requests ex_reserve_store_approved) =
     [ex_reserve_request 2 O_neg 10 pending, ex_reserve_request 3 A_pos 1 approved]"
proof -
  note inst = approve_frame[where rid = 1 and db = ex_store
      and request = "ex_request 1 A_pos 5 pending" and clk = ex_clock and fails = no_faults
      and srt = "sort_key expiryDate" and rid' = 1 and rdb = ex_reserve_store
      and rrequest = "ex_reserve_request 1 A_pos 5 pending" and clk' = ex_clock
      and fails' = no_faults and srt' = "sort_key expiryDate"]
  have bt: "req_bloodType (ex_request 1 A_pos 5 pending) = A_pos"
    "rsv_bloodType (ex_reserve_request 1 A_pos 5 pending) = A_pos"
    by (simp_all add: ex_request_def ex_reserve_request_def)
  have old: "filter (\<lambda>d. bloodType d \<noteq> A_pos) (inventory ex_store) = [ex_b3]"
    "filter (\<lambda>r. req_id r \<noteq> 1) (requests ex_store) =
       [ex_request 2 O_neg 10 pending, ex_request 3 A_pos 1 fulfilled]"
    "filter (\<lambda>d. bloodType d \<noteq> A_pos) (rsv_inventory ex_reserve_store) = [ex_b3]"
    "filter (\<lambda>r. rsv_id r \<noteq> 1) (rsv_requests ex_reserve_store) =
       [ex_reserve_request 2 O_neg 10 pending, ex_reserve_request 3 A_pos 1 approved]"
    by (simp_all add: ex_store_def ex_reserve_store_def ex_b1_def ex_b2_def ex_b3_def
        ex_request_def ex_reserve_request_def)
  have a: "filter (\<lambda>d. bloodType d \<noteq> A_pos) (inventory ex_store_fulfilled) = [ex_b3] \<and>
      filter (\<lambda>r. req_id r \<noteq> 1) (requests ex_store_fulfilled) =
        [ex_request 2 O_neg 10 pending, ex_request 3 A_pos 1 fulfilled]"
  proof -
    from inst ex_find(1) ex_distinct(1) ex_sorted(1)
    have "filter (\<lambda>d. bloodType d \<noteq> req_bloodType (ex_request 1 A_pos 5 pending))
          (inventory (snd (approve ex_clock no_faults (sort_key expiryDate) 1 ex_store))) =
        filter (\<lambda>d. bloodType d \<noteq> req_bloodType (ex_request 1 A_pos 5 pending)) (inventory ex_store) \<and>
        filter (\<lambda>r. req_id r \<noteq> 1)
          (requests (snd (approve ex_clock no_faults (sort_key expiryDate) 1 ex_store))) =
        filter (\<lambda>r. req_id r \<noteq> 1) (requests ex_store)"
      by blast
    then show ?thesis by (simp only: approve_example snd_conv bt old)
  qed
  have b: "filter (\<lambda>d. bloodType d \<noteq> A_pos) (rsv_inventory ex_reserve_store_approved) = [ex_b3] \<and>
      filter (\<lambda>r. rsv_id r \<noteq> 1) (rsv_requests ex_reserve_store_approved) =
        [ex_reserve_request 2 O_neg 10 pending, ex_reserve_request 3 A_pos 1 approved]"
  proof -
    from inst ex_find(2) ex_distinct(2) ex_sorted(2)
    have "filter (\<lambda>d. bloodType d \<noteq> rsv_bloodType (ex_reserve_request 1 A_pos 5 pending))
          (rsv_inventory (snd (approve_reserve ex_clock no_faults (sort_key expiryDate) 1 ex_reserve_store))) =
        filter (\<lambda>d. bloodType d \<noteq> rsv_bloodType (ex_reserve_request 1 A_pos 5 pending))
          (rsv_inventory ex_reserve_store) \<and>
        filter (\<lambda>r. rsv_id r \<noteq> 1)
          (rsv_requests (snd (approve_reserve ex_clock no_faults (sort_key expiryDate) 1 ex_reserve_store))) =
        filter (\<lambda>r. rsv_id r \<noteq> 1) (rsv_requests ex_reserve_store)"
      by blast
    then show ?thesis by (simp only: approve_reserve_example snd_conv bt old)
  qed
  show ?thesis
    by (intro conjI ex_find ex_distinct ex_sorted conjunct1[OF a] conjunct2[OF a]
        conjunct1[OF b] conjunct2[OF b])
qed

text \<open>
  C4. Among the batches the sorted query of an approval matches (in \<^verbatim>\<open>server.js\<close> the
  available batches of the request's blood type that expire after the reading of the
  clock, in \<^verbatim>\<open>part_000\<close> all its available batches), a batch is consumed, fully or by
  a split, only if every matched batch with an earlier expiry date is fully consumed.
  This holds whether or not the expiry dates are pairwise distinct, and for every
  outcome of the run.
\<close>

theorem approve_earliest_expiry_first:
  "(find (\<lambda>r. req_id r = rid) (requests db) = Some request \<longrightarrow>
    distinct (map inv_id (inventory db)) \<longrightarrow>
    sortedByExpiry srt (filter (matchAvailable (req_bloodType request) (clk 1)) (inventory db)) \<longrightarrow>
    b \<in> set (inventory db) \<longrightarrow> matchAvailable (req_bloodType request) (clk 1) b \<longrightarrow>
    b' \<in> set (inventory db) \<longrightarrow> matchAvailable (req_bloodType request) (clk 1) b' \<longrightarrow>
    expiryDate b' < expiryDate b \<longrightarrow>
    consumed b (inventory (snd (approve clk fails srt rid db))) \<longrightarrow>
    fullyConsumed used b' (inventory (snd (approve clk fails srt rid db))))
   \<and>
   (find (\<lambda>r. rsv_id r = rid') (rsv_requests rdb) = Some rrequest \<longrightarrow>
    distinct (map inv_id (rsv_inventory rdb)) \<longrightarrow>
    sortedByExpiry srt' (filter (matchReserve (rsv_bloodType rrequest)) (rsv_inventory rdb)) \<longrightarrow>
    c \<in> set (rsv_inventory rdb) \<longrightarrow> matchReserve (rsv_bloodType rrequest) c \<longrightarrow>
    c' \<in> set (rsv_inventory rdb) \<longrightarrow> matchReserve (rsv_bloodType rrequest) c' \<longrightarrow>
    expiryDate c' < expiryDate c \<longrightarrow>
    consumed c (rsv_inventory (snd (approve_reserve clk' fails' srt' rid' rdb))) \<longrightarrow>
    fullyConsumed reserved c' (rsv_inventory (snd (approve_reserve clk' fails' srt' rid' rdb))))"
proof (intro conjI impI)
  assume f: "find (\<lambda>r. req_id r = rid) (requests db) = Some request"
    and d: "distinct (map inv_id (inventory db))"
    and s: "sortedByExpiry srt (filter (matchAvailable (req_bloodType request) (clk 1)) (inventory db))"
    and b: "b \<in> set (inventory db)" "matchAvailable (req_bloodType request) (clk 1) b"
    and b': "b' \<in> set (inventory db)" "matchAvailable (req_bloodType request) (clk 1) b'"
    and lt: "expiryDate b' < expiryDate b"
    and c: "consumed b (inventory (snd (approve clk fails srt rid db)))"
  let ?items = "srt (filter (matchAvailable (req_bloodType request) (clk 1)) (inventory db))"
  have "b \<in> set ?items" using sorted_items(3)[OF s d] b by simp
  then obtain pre post where items: "?items = pre @ b # post" by (auto dest: split_list)
  have "b' \<in> set ?items" using sorted_items(3)[OF s d] b' by simp
  moreover have "sorted (map expiryDate ?items)" using s by (simp add: sortedByExpiry_def)
  ultimately have "b' \<in> set pre" using items lt by (metis earlier_is_before)
  then show "fullyConsumed used b' (inventory (snd (approve clk fails srt rid db)))"
    using c by (rule approve_consumes_in_order[where clk = clk and srt = srt, OF f d s items])
next
  assume f: "find (\<lambda>r. rsv_id r = rid') (rsv_requests rdb) = Some rrequest"
    and d: "distinct (map inv_id (rsv_inventory rdb))"
    and s: "sortedByExpiry srt' (filter (matchReserve (rsv_bloodType rrequest)) (rsv_inventory rdb))"
    and b: "c \<in> set (rsv_inventory rdb)" "matchReserve (rsv_bloodType rrequest) c"
    and b': "c' \<in> set (rsv_inventory rdb)" "matchReserve (rsv_bloodType rrequest) c'"
    and lt: "expiryDate c' < expiryDate c"
    and c: "consumed c (rsv_inventory (snd (approve_reserve clk' fails' srt' rid' rdb)))"
  let ?items = "srt' (filter (matchReserve (rsv_bloodType rrequest)) (rsv_inventory rdb))"
  have "c \<in> set ?items" using sorted_items(3)[OF s d] b by simp
  then obtain pre post where items: "?items = pre @ c # post" by (auto dest: split_list)
  have "c' \<in> set ?items" using sorted_items(3)[OF s d] b' by simp
  moreover have "sorted (map expiryDate ?items)" using s by (simp add: sortedByExpiry_def)
  ultimately have "c' \<in> set pre" using items lt by (metis earlier_is_before)
  then show "fullyConsumed reserved c' (rsv_inventory (snd (approve_reserve clk' fails' srt' rid' rdb)))"
    using c by (rule approve_reserve_consumes_in_order[where srt = srt', OF f d s items])
qed


lemma ex_match:
  "ex_b1 \<in> set (inventory ex_store)" "ex_b2 \<in> set (inventory ex_store)"
  "matchAvailable (req_bloodType (ex_request 1 A_pos 5 pending)) (ex_clock 1) ex_b1"
  "matchAvailable (req_bloodType (ex_request 1 A_pos 5 pending)) (ex_clock 1) ex_b2"
  "ex_b1 \<in> set (rsv_inventory ex_reserve_store)" "ex_b2 \<in> set (rsv_inventory ex_reserve_store)"
  "matchReserve (rsv_bloodType (ex_reserve_request 1 A_pos 5 pending)) ex_b1"
  "matchReserve (rsv_bloodType (ex_reserve_request 1 A_pos 5 pending)) ex_b2"
  "expiryDate ex_b1 < expiryDate ex_b2"
  by (simp_all add: ex_store_def ex_reserve_store_def matchAvailable_def matchReserve_def
      ex_request_def ex_reserve_request_def ex_clock_def ex_b1_def ex_b2_def)

lemma ex_consumed:
  "consumed ex_b2 (inventory (snd (approve ex_clock no_faults (sort_key expiryDate) 1 ex_store)))"
  "consumed ex_b2 (rsv_inventory (snd (approve_reserve ex_clock no_faults (sort_key expiryDate) 1 ex_reserve_store)))"
  by (simp_all only: approve_example approve_reserve_example snd_conv) code_simp+

theorem approve_earliest_expiry_first_witness:
  "find (\<lambda>r. req_id r = 1) (requests ex_store) = Some (ex_request 1 A_pos 5 pending) \<and>
   distinct (map inv_id (inventory ex_store)) \<and>
   sortedByExpiry (sort_key expiryDate)
     (filter (matchAvailable (req_bloodType (ex_request 1 A_pos 5 pending)) (ex_clock 1)) (inventory ex_store)) \<and>
   ex_b2 \<in> set (inventory ex_store) \<and>
   matchAvailable (req_bloodType (ex_request 1 A_pos 5 pending)) (ex_clock 1) ex_b2 \<and>
   ex_b1 \<in> set (inventory ex_store) \<and>
   matchAvailable (req_bloodType (ex_request 1 A_pos 5 pending)) (ex_clock 1) ex_b1 \<and>
   expiryDate ex_b1 < expiryDate ex_b2 \<and>
   consumed ex_b2 (inventory (snd (approve ex_clock no_faults (sort_key expiryDate) 1 ex_store))) \<and>
   fullyConsumed used ex_b1 (inventory (snd (approve ex_clock no_faults (sort_key expiryDate) 1 ex_store))) \<and>
   find (\<lambda>r. rsv_id r = 1) (rsv_requests ex_reserve_store) = Some (ex_reserve_request 1 A_pos 5 pending) \<and>
   distinct (map inv_id (rsv_inventory ex_reserve_store)) \<and>
   sortedByExpiry (sort_key expiryDate)
     (filter (matchReserve (rsv_bloodType (ex_reserve_request 1 A_pos 5 pending))) (rsv_inventory ex_reserve_store)) \<and>
   ex_b2 \<in> set (rsv_inventory ex_reserve_store) \<and>
   matchReserve (rsv_bloodType (ex_reserve_request 1 A_pos 5 pending)) ex_b2 \<and>
   ex_b1 \<in> set (rsv_inventory ex_reserve_store) \<and>
   matchReserve (rsv_bloodType (ex_reserve_request 1 A_pos 5 pending)) ex_b1 \<and>
   consumed ex_b2 (rsv_inventory (snd (approve_reserve ex_clock no_faults (sort_key expiryDate) 1 ex_reserve_store))) \<and>
   fullyConsumed reserved ex_b1
     (rsv_inventory (snd (approve_reserve ex_clock no_faults (sort_key expiryDate) 1 ex_reserve_store)))"
proof -
  note inst = approve_earliest_expiry_first[where rid = 1 and db = ex_store
      and request = "ex_request 1 A_pos 5 pending" and clk = ex_clock and fails = no_faults
      and srt = "sort_key expiryDate" and b = ex_b2 and b' = ex_b1
      and rid' = 1 and rdb = ex_reserve_store
      and rrequest = "ex_reserve_request 1 A_pos 5 pending" and clk' = ex_clock
      and fails' = no_faults and srt' = "sort_key expiryDate" and c = ex_b2 and c' = ex_b1]
  have a: "fullyConsumed used ex_b1 (inventory (snd (approve ex_clock no_faults (sort_key expiryDate) 1 ex_store)))"
    using inst ex_find(1) ex_distinct(1) ex_sorted(1) ex_match(1,2,3,4,9) ex_consumed(1) by blast
  have b: "fullyConsumed reserved ex_b1
     (rsv_inventory (snd (approve_reserve ex_clock no_faults (sort_key expiryDate) 1 ex_reserve_store)))"
    using inst ex_find(2) ex_distinct(2) ex_sorted(2) ex_match(5,6,7,8,9) ex_consumed(2) by blast
  show ?thesis
    by (intro conjI ex_find ex_distinct ex_sorted ex_match ex_consumed a b)
qed

text \<open>
  C9. The claim fails: with two available batches of AB+ that expire at the same date
  and a sorted query that returns the later-created one first, the approval of a
  request for 2 units consumes the later-created batch and leaves the older one as it
  was.
\<close>

theorem tie_break_counterexample:
  "sortedByExpiry later_first
     (filter (matchAvailable AB_pos (ex_clock 1)) (inventory ex_tie_store)) \<and>
   matchAvailable AB_pos (ex_clock 1) ex_tie1 \<and> matchAvailable AB_pos (ex_clock 1) ex_tie2 \<and>
   expiryDate ex_tie1 = expiryDate ex_tie2 \<and> createdAt ex_tie1 < createdAt ex_tie2 \<and>
   fst (approve ex_clock no_faults later_first 1 ex_tie_store) =
     Inr ((ex_request 1 AB_pos 2 pending)
            \<lparr>req_status := fulfilled, processedBy := Some ''System'',
             processedDate := Some 103, req_updatedAt := 104\<rparr>) \<and>
   consumed ex_tie2 (inventory (snd (approve ex_clock no_faults later_first 1 ex_tie_store))) \<and>
   findInv (inv_id ex_tie1) (inventory (snd (approve ex_clock no_faults later_first 1 ex_tie_store))) =
     Some ex_tie1 \<and>
   \<not> consumed ex_tie1 (inventory (snd (approve ex_clock no_faults later_first 1 ex_tie_store)))"
  by code_simp

text \<open>
  C9, amended. The handlers sort on the expiry date alone, so batches with the same
  expiry date are taken in the order in which the sorted query returns them, whatever
  that order is: a batch of the query result is consumed only if every batch returned
  before it is fully consumed.
\<close>

theorem approve_consumes_in_query_order:
  "(find (\<lambda>r. req_id r = rid) (requests db) = Some request \<longrightarrow>
    distinct (map inv_id (inventory db)) \<longrightarrow>
    sortedByExpiry srt (filter (matchAvailable (req_bloodType request) (clk 1)) (inventory db)) \<longrightarrow>
    srt (filter (matchAvailable (req_bloodType request) (clk 1)) (inventory db)) = pre @ b # post \<longrightarrow>
    b' \<in> set pre \<longrightarrow>
    consumed b (inventory (snd (approve clk fails srt rid db))) \<longrightarrow>
    fullyConsumed used b' (inventory (snd (approve clk fails srt rid db))))
   \<and>
   (find (\<lambda>r. rsv_id r = rid') (rsv_requests rdb) = Some rrequest \<longrightarrow>
    distinct (map inv_id (rsv_inventory rdb)) \<longrightarrow>
    sortedByExpiry srt' (filter (matchReserve (rsv_bloodType rrequest)) (rsv_inventory rdb)) \<longrightarrow>
    srt' (filter (matchReserve (rsv_bloodType rrequest)) (rsv_inventory rdb)) = pre' @ c # post' \<longrightarrow>
    c' \<in> set pre' \<longrightarrow>
    consumed c (rsv_inventory (snd (approve_reserve clk' fails' srt' rid' rdb))) \<longrightarrow>
    fullyConsumed reserved c' (rsv_inventory (snd (approve_reserve clk' fails' srt' rid' rdb))))"
  using approve_consumes_in_order[where clk = clk and srt = srt]
    approve_reserve_consumes_in_order[where srt = srt']
  by blast

lemma ex_items:
  "sort_key expiryDate
     (filter (matchAvailable (req_bloodType (ex_request 1 A_pos 5 pending)) (ex_clock 1)) (inventory ex_store))
     = [ex_b1] @ ex_b2 # []"
  "sort_key expiryDate
     (filter (matchReserve (rsv_bloodType (ex_reserve_request 1 A_pos 5 pending))) (rsv_inventory ex_reserve_store))
     = [ex_b1] @ ex_b2 # []"
  by code_simp+

theorem approve_consumes_in_query_order_witness:
  "find (\<lambda>r. req_id r = 1) (requests ex_store) = Some (ex_request 1 A_pos 5 pending) \<and>
   distinct (map inv_id (inventory ex_store)) \<and>
   sortedByExpiry (sort_key expiryDate)
     (filter (matchAvailable (req_bloodType (ex_request 1 A_pos 5 pending)) (ex_clock 1)) (inventory ex_store)) \<and>
   sort_key expiryDate
     (filter (matchAvailable (req_bloodType (ex_request 1 A_pos 5 pending)) (ex_clock 1)) (inventory ex_store))
     = [ex_b1] @ ex_b2 # [] \<and>
   ex_b1 \<in> set [ex_b1] \<and>
   consumed ex_b2 (inventory (snd (approve ex_clock no_faults (sort_key expiryDate) 1 ex_store))) \<and>
   fullyConsumed used ex_b1 (inventory (snd (approve ex_clock no_faults (sort_key expiryDate) 1 ex_store))) \<and>
   find (\<lambda>r. rsv_id r = 1) (rsv_requests ex_reserve_store) = Some (ex_reserve_request 1 A_pos 5 pending) \<and>
   distinct (map inv_id (rsv_inventory ex_reserve_store)) \<and>
   sortedByExpiry (sort_key expiryDate)
     (filter (matchReserve (rsv_bloodType (ex_reserve_request 1 A_pos 5 pending))) (rsv_inventory ex_reserve_store)) \<and>
   sort_key expiryDate
     (filter (matchReserve (rsv_bloodType (ex_reserve_request 1 A_pos 5 pending))) (rsv_inventory ex_reserve_store))
     = [ex_b1] @ ex_b2 # [] \<and>
   consumed ex_b2 (rsv_inventory (snd (approve_reserve ex_clock no_faults (sort_key expiryDate) 1 ex_reserve_store))) \<and>
   fullyConsumed reserved ex_b1
     (rsv_inventory (snd (approve_reserve ex_clock no_faults (sort_key expiryDate) 1 ex_reserve_store)))"
proof -
  note inst = approve_consumes_in_query_order[where rid = 1 and db = ex_store
      and request = "ex_request 1 A_pos 5 pending" and clk = ex_clock and fails = no_faults
      and srt = "sort_key expiryDate" and b = ex_b2 and b' = ex_b1 and pre = "[ex_b1]" and post = "[]"
      and rid' = 1 and rdb = ex_reserve_store
      and rrequest = "ex_reserve_request 1 A_pos 5 pending" and clk' = ex_clock
      and fails' = no_faults and srt' = "sort_key expiryDate" and c = ex_b2 and c' = ex_b1
      and pre' = "[ex_b1]" and post' = "[]"]
  have m: "ex_b1 \<in> set [ex_b1]" by simp
  have a: "fullyConsumed used ex_b1 (inventory (snd (approve ex_clock no_faults (sort_key expiryDate) 1 ex_store)))"
    using inst ex_find(1) ex_distinct(1) ex_sorted(1) ex_items(1) m ex_consumed(1) by blast
  have b: "fullyConsumed reserved ex_b1
     (rsv_inventory (snd (approve_reserve ex_clock no_faults (sort_key expiryDate) 1 ex_reserve_store)))"
    using inst ex_find(2) ex_distinct(2) ex_sorted(2) ex_items(2) m ex_consumed(2) by blast
  show ?thesis
    by (intro conjI ex_find ex_distinct ex_sorted ex_items m ex_consumed a b)
qed

text \<open>
  C5. The claim fails: a batch of \<open>2 ^ 54\<close> units is split for a remaining need of 1.
  The new used batch holds 1 unit; the original stays available with the double nearest
  to \<open>2 ^ 54 - 1\<close>, which is \<open>2 ^ 54\<close>, and not with (original - 1).
\<close>

theorem split_rounding_counterexample:
  "ex_big \<in> set [ex_big] \<and> status ex_big = available \<and> (0::int) < 1 \<and> 1 < units ex_big \<and>
   deductLoop ex_clock no_faults [ex_big] 1 0 0 [ex_big] =
     Completed 2 2
       [ex_big\<lparr>updatedAt := 101\<rparr>,
        ex_big\<lparr>inv_id := 2, units := 1, status := used, updatedAt := 100\<rparr>] \<and>
   units (ex_big\<lparr>updatedAt := 101\<rparr>) = 18014398509481984 \<and>
   units ex_big - 1 = 18014398509481983"
  by code_simp

text \<open>
  C5, amended. When the loop reaches a batch of at most \<open>2 ^ 53\<close> units that holds more
  units than the remaining need \<open>q > 0\<close>, and both writes succeed, the collection
  afterwards is the collection before with that batch's document reduced to
  \<open>units item - q\<close> (its status, available, and its other fields but \<^verbatim>\<open>updatedAt\<close>
  unchanged), every other document as it was, and one new document at the end: \<open>q\<close>
  units, the consumed status (used in \<^verbatim>\<open>server.js\<close>, reserved in \<^verbatim>\<open>part_000\<close>), and the
  blood type, expiry date, donor and collection date of the batch. The loop ends there.
\<close>

theorem split_correct:
  "(item \<in> set docs \<longrightarrow> distinct (map inv_id docs) \<longrightarrow> status item = available \<longrightarrow>
    0 < q \<longrightarrow> q < units item \<longrightarrow> units item \<le> maxExact \<longrightarrow> \<not> fails w \<longrightarrow> \<not> fails (Suc w) \<longrightarrow>
    (\<exists>n remaining.
       deductLoop clk fails (item # rest) q k w docs =
         Completed (Suc (Suc k)) (Suc (Suc w))
           (map (\<lambda>d. if d = item then remaining else d) docs @ [n]) \<and>
       remaining = item\<lparr>units := units item - q, updatedAt := clk (Suc k)\<rparr> \<and>
       status remaining = available \<and>
       inv_id n \<notin> inv_id ` set docs \<and> units n = q \<and> status n = used \<and>
       bloodType n = bloodType item \<and> expiryDate n = expiryDate item \<and>
       donorId n = donorId item \<and> collectionDate n = collectionDate item \<and>
       units remaining + units n = units item))
   \<and>
   (item \<in> set docs \<longrightarrow> distinct (map inv_id docs) \<longrightarrow> status item = available \<longrightarrow>
    0 < q \<longrightarrow> q < units item \<longrightarrow> units item \<le> maxExact \<longrightarrow> \<not> fails w \<longrightarrow> \<not> fails (Suc w) \<longrightarrow>
    (\<exists>n remaining.
       reserveLoop clk fails (item # rest) q k w docs =
         Completed (Suc (Suc k)) (Suc (Suc w))
           (map (\<lambda>d. if d = item then remaining else d) docs @ [n]) \<and>
       remaining = item\<lparr>units := units item - q\<rparr> \<and>
       status remaining = available \<and>
       inv_id n \<notin> inv_id ` set docs \<and> units n = q \<and> status n = reserved \<and>
       bloodType n = bloodType item \<and> expiryDate n = expiryDate item \<and>
       donorId n = donorId item \<and> collectionDate n = collectionDate item \<and>
       units remaining + units n = units item))"
proof (intro conjI impI)
  assume h: "item \<in> set docs" "distinct (map inv_id docs)" "status item = available"
    "0 < q" "q < units item" "\<not> fails w" "\<not> fails (Suc w)"
    and mx: "units item \<le> maxExact"
  have js: "js_sub (units item) q = units item - q" using h(4,5) mx by (rule js_sub_exact)
  let ?n = "\<lparr>inv_id = new_id docs, bloodType = bloodType item, units = q,
             donorId = donorId item, collectionDate = collectionDate item,
             expiryDate = expiryDate item, status = used,
             createdAt = createdAt item, updatedAt = clk k\<rparr>"
  let ?f = "\<lambda>d. d\<lparr>units := units item - q, updatedAt := clk (Suc k)\<rparr>"
  have fresh: "new_id docs \<notin> inv_id ` set docs" by (rule new_id_not_stored)
  then have ne: "inv_id ?n \<noteq> inv_id item" using h(1) by auto
  have "updateOne (inv_id item) ?f (docs @ [?n]) = updateOne (inv_id item) ?f docs @ [?n]"
    using ne by (simp add: updateOne_append updateOne_other)
  also have "\<dots> = map (\<lambda>d. if d = item then ?f d else d) docs @ [?n]"
    by (simp only: updateOne_item[OF h(2) h(1)])
  also have "map (\<lambda>d. if d = item then ?f d else d) docs = map (\<lambda>d. if d = item then ?f item else d) docs"
    by (rule map_cong) auto
  finally have "deductLoop clk fails (item # rest) q k w docs =
      Completed (Suc (Suc k)) (Suc (Suc w)) (map (\<lambda>d. if d = item then ?f item else d) docs @ [?n])"
    using h js by (simp add: Let_def deductLoop_done)
  then show "\<exists>n remaining.
       deductLoop clk fails (item # rest) q k w docs =
         Completed (Suc (Suc k)) (Suc (Suc w))
           (map (\<lambda>d. if d = item then remaining else d) docs @ [n]) \<and>
       remaining = item\<lparr>units := units item - q, updatedAt := clk (Suc k)\<rparr> \<and>
       status remaining = available \<and>
       inv_id n \<notin> inv_id ` set docs \<and> units n = q \<and> status n = used \<and>
       bloodType n = bloodType item \<and> expiryDate n = expiryDate item \<and>
       donorId n = donorId item \<and> collectionDate n = collectionDate item \<and>
       units remaining + units n = units item"
    using h(3) fresh by (intro exI[of _ ?n] exI[of _ "?f item"]) simp
next
  assume h: "item \<in> set docs" "distinct (map inv_id docs)" "status item = available"
    "0 < q" "q < units item" "\<not> fails w" "\<not> fails (Suc w)"
    and mx: "units item \<le> maxExact"
  have js: "js_sub (units item) q = units item - q" using h(4,5) mx by (rule js_sub_exact)
  let ?n = "\<lparr>inv_id = new_id docs, bloodType = bloodType item, units = q,
             donorId = donorId item, collectionDate = collectionDate item,
             expiryDate = expiryDate item, status = reserved,
             createdAt = clk k, updatedAt = clk (Suc k)\<rparr>"
  let ?f = "\<lambda>d. d\<lparr>units := units item - q\<rparr>"
  have fresh: "new_id docs \<notin> inv_id ` set docs" by (rule new_id_not_stored)
  then have ne: "inv_id ?n \<noteq> inv_id item" using h(1) by auto
  have "updateOne (inv_id item) ?f (docs @ [?n]) = updateOne (inv_id item) ?f docs @ [?n]"
    using ne by (simp add: updateOne_append updateOne_other)
  also have "\<dots> = map (\<lambda>d. if d = item then ?f d else d) docs @ [?n]"
    by (simp only: updateOne_item[OF h(2) h(1)])
  also have "map (\<lambda>d. if d = item then ?f d else d) docs = map (\<lambda>d. if d = item then ?f item else d) docs"
    by (rule map_cong) auto
  finally have "reserveLoop clk fails (item # rest) q k w docs =
      Completed (Suc (Suc k)) (Suc (Suc w)) (map (\<lambda>d. if d = item then ?f item else d) docs @ [?n])"
    using h js by (simp add: Let_def reserveLoop_done)
  then show "\<exists>n remaining.
       reserveLoop clk fails (item # rest) q k w docs =
         Completed (Suc (Suc k)) (Suc (Suc w))
           (map (\<lambda>d. if d = item then remaining else d) docs @ [n]) \<and>
       remaining = item\<lparr>units := units item - q\<rparr> \<and>
       status remaining = available \<and>
       inv_id n \<notin> inv_id ` set docs \<and> units n = q \<and> status n = reserved \<and>
       bloodType n = bloodType item \<and> expiryDate n = expiryDate item \<and>
       donorId n = donorId item \<and> collectionDate n = collectionDate item \<and>
       units remaining + units n = units item"
    using h(3) fresh by (intro exI[of _ ?n] exI[of _ "?f item"]) simp
qed


theorem split_correct_witness:
  "ex_b2 \<in> set [ex_b2, ex_b3] \<and> distinct (map inv_id [ex_b2, ex_b3]) \<and>
   status ex_b2 = available \<and> (0::int) < 2 \<and> 2 < units ex_b2 \<and> units ex_b2 \<le> maxExact \<and>
   \<not> no_faults 0 \<and> \<not> no_faults (Suc 0) \<and>
   (\<exists>n. deductLoop ex_clock no_faults [ex_b2] 2 0 0 [ex_b2, ex_b3] =
          Completed 2 2 ([ex_b2\<lparr>units := 2, updatedAt := 101\<rparr>, ex_b3] @ [n]) \<and>
        units n = 2 \<and> status n = used \<and> expiryDate n = expiryDate ex_b2) \<and>
   (\<exists>n. reserveLoop ex_clock no_faults [ex_b2] 2 0 0 [ex_b2, ex_b3] =
          Completed 2 2 ([ex_b2\<lparr>units := 2\<rparr>, ex_b3] @ [n]) \<and>
        units n = 2 \<and> status n = reserved \<and> expiryDate n = expiryDate ex_b2)"
proof -
  have h: "ex_b2 \<in> set [ex_b2, ex_b3]" "distinct (map inv_id [ex_b2, ex_b3])"
    "status ex_b2 = available" "(0::int) < 2" "2 < units ex_b2" "units ex_b2 \<le> maxExact"
    "\<not> no_faults 0" "\<not> no_faults (Suc 0)"
    by (simp_all add: ex_b2_def ex_b3_def no_faults_def maxExact_def)
  have u: "units ex_b2 - 2 = 2" "ex_clock (Suc 0) = 101" "ex_b3 \<noteq> ex_b2"
    by (simp_all add: ex_b2_def ex_b3_def ex_clock_def)
  note inst = split_correct[where item = ex_b2 and docs = "[ex_b2, ex_b3]" and q = 2
      and fails = no_faults and w = 0 and clk = ex_clock and rest = "[]" and k = 0]
  from inst h obtain n remaining where
    "deductLoop ex_clock no_faults [ex_b2] 2 0 0 [ex_b2, ex_b3] =
       Completed (Suc (Suc 0)) (Suc (Suc 0))
         (map (\<lambda>d. if d = ex_b2 then remaining else d) [ex_b2, ex_b3] @ [n])"
    "remaining = ex_b2\<lparr>units := units ex_b2 - 2, updatedAt := ex_clock (Suc 0)\<rparr>"
    "units n = 2" "status n = used" "expiryDate n = expiryDate ex_b2"
    by blast
  then have a: "\<exists>n. deductLoop ex_clock no_faults [ex_b2] 2 0 0 [ex_b2, ex_b3] =
          Completed 2 2 ([ex_b2\<lparr>units := 2, updatedAt := 101\<rparr>, ex_b3] @ [n]) \<and>
        units n = 2 \<and> status n = used \<and> expiryDate n = expiryDate ex_b2"
    using u by (intro exI[of _ n]) (simp add: numeral_2_eq_2)
  from inst h obtain n remaining where
    "reserveLoop ex_clock no_faults [ex_b2] 2 0 0 [ex_b2, ex_b3] =
       Completed (Suc (Suc 0)) (Suc (Suc 0))
         (map (\<lambda>d. if d = ex_b2 then remaining else d) [ex_b2, ex_b3] @ [n])"
    "remaining = ex_b2\<lparr>units := units ex_b2 - 2\<rparr>"
    "units n = 2" "status n = reserved" "expiryDate n = expiryDate ex_b2"
    by blast
  then have b: "\<exists>n. reserveLoop ex_clock no_faults [ex_b2] 2 0 0 [ex_b2, ex_b3] =
          Completed 2 2 ([ex_b2\<lparr>units := 2\<rparr>, ex_b3] @ [n]) \<and>
        units n = 2 \<and> status n = reserved \<and> expiryDate n = expiryDate ex_b2"
    using u by (intro exI[of _ n]) (simp add: numeral_2_eq_2)
  show ?thesis by (intro conjI h a b)
qed

text \<open>
  C3. The claim fails: when the write numbered 2 of the run is rejected (the save of the
  reduced batch, after the save of the first batch and of the new used batch), the
  handler of \<^verbatim>\<open>server.js\<close> answers with the unexpected error, the request is as it was,
  and the collection holds the first batch marked used and the new used batch of 2 units
  beside the unreduced batch of 4: the units of A+ have grown from 7 to 9.
\<close>

theorem approve_not_atomic_counterexample:
  "fst (approve ex_clock (fault_at 2) (sort_key expiryDate) 1 ex_store) = Inl Unexpected \<and>
   requests (snd (approve ex_clock (fault_at 2) (sort_key expiryDate) 1 ex_store)) = requests ex_store \<and>
   inventory (snd (approve ex_clock (fault_at 2) (sort_key expiryDate) 1 ex_store)) =
     [ex_b2, ex_b1\<lparr>status := used, updatedAt := 102\<rparr>, ex_b3,
      ex_b2\<lparr>inv_id := 4, units := 2, status := used, updatedAt := 103\<rparr>] \<and>
   inventory (snd (approve ex_clock (fault_at 2) (sort_key expiryDate) 1 ex_store)) \<noteq> inventory ex_store \<and>
   unitsOfType A_pos (inventory ex_store) = 7 \<and>
   unitsOfType A_pos (inventory (snd (approve ex_clock (fault_at 2) (sort_key expiryDate) 1 ex_store))) = 9"
  by code_simp

text \<open>
  C3, amended. The handlers have no transaction and no rollback. A run on a request with
  sufficient stock (and pending, in \<^verbatim>\<open>server.js\<close>) issues its saves one after another:
  those of the loop, then the request (then the recipient, in \<^verbatim>\<open>part_000\<close>). If the
  database rejects none of them, the response is success with the request in its new
  status, and the store is the result of all the saves. If the save numbered \<open>n\<close> is the
  first one rejected, the response is the unexpected error and the store is the result
  of exactly the \<open>n\<close> saves before it: they remain, and no later save is made.
\<close>

theorem approve_saves_until_rejected:
  "(find (\<lambda>r. req_id r = rid) (requests db) = Some request \<longrightarrow>
    req_status request = pending \<longrightarrow>
    \<not> totalAvailable (req_bloodType request) (clk 0) (inventory db) < req_units request \<longrightarrow>
    approve clk fails srt rid db =
      (case firstFault fails (length (approveWrites clk srt rid request db)) of
         None \<Rightarrow>
           (Inr (fulfilledAt clk (Suc (length (approveWrites clk srt rid request db))) request),
            applyWrites (approveWrites clk srt rid request db) db)
       | Some n \<Rightarrow>
           (Inl Unexpected, applyWrites (take n (approveWrites clk srt rid request db)) db)))
   \<and>
   (find (\<lambda>r. rsv_id r = rid') (rsv_requests rdb) = Some rrequest \<longrightarrow>
    \<not> availableUnits (rsv_bloodType rrequest) (rsv_inventory rdb) < rsv_units rrequest \<longrightarrow>
    approve_reserve clk' fails' srt' rid' rdb =
      (case firstFault fails' (length (approveReserveWrites clk' srt' rid' rrequest rdb)) of
         None \<Rightarrow>
           (Inr (approvedAt clk' (approveReserveClock srt' rrequest rdb) rrequest),
            applyWrites (approveReserveWrites clk' srt' rid' rrequest rdb) rdb)
       | Some n \<Rightarrow>
           (Inl Unexpected, applyWrites (take n (approveReserveWrites clk' srt' rid' rrequest rdb)) rdb)))"
proof (intro conjI impI)
  assume f: "find (\<lambda>r. req_id r = rid) (requests db) = Some request"
    and p: "req_status request = pending"
    and s: "\<not> totalAvailable (req_bloodType request) (clk 0) (inventory db) < req_units request"
  show "approve clk fails srt rid db =
      (case firstFault fails (length (approveWrites clk srt rid request db)) of
         None \<Rightarrow>
           (Inr (fulfilledAt clk (Suc (length (approveWrites clk srt rid request db))) request),
            applyWrites (approveWrites clk srt rid request db) db)
       | Some n \<Rightarrow>
           (Inl Unexpected, applyWrites (take n (approveWrites clk srt rid request db)) db))"
    by (simp add: approve_runWrites[where clk = clk, OF f p s] runWrites_first firstFault_def
        split: option.splits)
next
  assume f: "find (\<lambda>r. rsv_id r = rid') (rsv_requests rdb) = Some rrequest"
    and s: "\<not> availableUnits (rsv_bloodType rrequest) (rsv_inventory rdb) < rsv_units rrequest"
  show "approve_reserve clk' fails' srt' rid' rdb =
      (case firstFault fails' (length (approveReserveWrites clk' srt' rid' rrequest rdb)) of
         None \<Rightarrow>
           (Inr (approvedAt clk' (approveReserveClock srt' rrequest rdb) rrequest),
            applyWrites (approveReserveWrites clk' srt' rid' rrequest rdb) rdb)
       | Some n \<Rightarrow>
           (Inl Unexpected, applyWrites (take n (approveReserveWrites clk' srt' rid' rrequest rdb)) rdb))"
    by (simp add: approve_reserve_runWrites[OF f s] runWrites_first firstFault_def
        split: option.splits)
qed

theorem approve_saves_until_rejected_witness:
  "find (\<lambda>r. req_id r = 1) (requests ex_store) = Some (ex_request 1 A_pos 5 pending) \<and>
   req_status (ex_request 1 A_pos 5 pending) = pending \<and>
   \<not> totalAvailable (req_bloodType (ex_request 1 A_pos 5 pending)) (ex_clock 0) (inventory ex_store)
       < req_units (ex_request 1 A_pos 5 pending) \<and>
   length (approveWrites ex_clock (sort_key expiryDate) 1 (ex_request 1 A_pos 5 pending) ex_store) = 4 \<and>
   firstFault (fault_at 2) 4 = Some 2 \<and>
   approve ex_clock (fault_at 2) (sort_key expiryDate) 1 ex_store =
     (Inl Unexpected,
      applyWrites (take 2 (approveWrites ex_clock (sort_key expiryDate) 1 (ex_request 1 A_pos 5 pending) ex_store))
        ex_store) \<and>
   applyWrites (take 2 (approveWrites ex_clock (sort_key expiryDate) 1 (ex_request 1 A_pos 5 pending) ex_store))
     ex_store =
     \<lparr>inventory = [ex_b2, ex_b1\<lparr>status := used, updatedAt := 102\<rparr>, ex_b3,
                   ex_b2\<lparr>inv_id := 4, units := 2, status := used, updatedAt := 103\<rparr>],
      requests = requests ex_store\<rparr> \<and>
   find (\<lambda>r. rsv_id r = 1) (rsv_requests ex_reserve_store) = Some (ex_reserve_request 1 A_pos 5 pending) \<and>
   \<not> availableUnits (rsv_bloodType (ex_reserve_request 1 A_pos 5 pending)) (rsv_inventory ex_reserve_store)
       < rsv_units (ex_reserve_request 1 A_pos 5 pending) \<and>
   length (approveReserveWrites ex_clock (sort_key expiryDate) 1 (ex_reserve_request 1 A_pos 5 pending)
             ex_reserve_store) = 5 \<and>
   firstFault no_faults 5 = None \<and>
   approve_reserve ex_clock no_faults (sort_key expiryDate) 1 ex_reserve_store =
     (Inr (approvedAt ex_clock
             (approveReserveClock (sort_key expiryDate) (ex_reserve_request 1 A_pos 5 pending) ex_reserve_store)
             (ex_reserve_request 1 A_pos 5 pending)),
      applyWrites
        (approveReserveWrites ex_clock (sort_key expiryDate) 1 (ex_reserve_request 1 A_pos 5 pending)
           ex_reserve_store)
        ex_reserve_store) \<and>
   applyWrites
     (approveReserveWrites ex_clock (sort_key expiryDate) 1 (ex_reserve_request 1 A_pos 5 pending)
        ex_reserve_store)
     ex_reserve_store = ex_reserve_store_approved"
proof -
  note inst = approve_saves_until_rejected[where rid = 1 and db = ex_store
      and request = "ex_request 1 A_pos 5 pending" and clk = ex_clock and fails = "fault_at 2"
      and srt = "sort_key expiryDate" and rid' = 1 and rdb = ex_reserve_store
      and rrequest = "ex_reserve_request 1 A_pos 5 pending" and clk' = ex_clock
      and fails' = no_faults and srt' = "sort_key expiryDate"]
  have p: "req_status (ex_request 1 A_pos 5 pending) = pending" by (simp add: ex_request_def)
  have s: "\<not> totalAvailable (req_bloodType (ex_request 1 A_pos 5 pending)) (ex_clock 0) (inventory ex_store)
       < req_units (ex_request 1 A_pos 5 pending)"
    by code_simp
  have s': "\<not> availableUnits (rsv_bloodType (ex_reserve_request 1 A_pos 5 pending)) (rsv_inventory ex_reserve_store)
       < rsv_units (ex_reserve_request 1 A_pos 5 pending)"
    by code_simp
  have l: "length (approveWrites ex_clock (sort_key expiryDate) 1 (ex_request 1 A_pos 5 pending) ex_store) = 4"
    by code_simp
  have l': "length (approveReserveWrites ex_clock (sort_key expiryDate) 1 (ex_reserve_request 1 A_pos 5 pending)
             ex_reserve_store) = 5"
    by code_simp
  have ff: "firstFault (fault_at 2) 4 = Some 2" by code_simp
  have ff': "firstFault no_faults 5 = None" by code_simp
  from inst ex_find(1) p s
  have "approve ex_clock (fault_at 2) (sort_key expiryDate) 1 ex_store =
      (case firstFault (fault_at 2)
              (length (approveWrites ex_clock (sort_key expiryDate) 1 (ex_request 1 A_pos 5 pending) ex_store)) of
         None \<Rightarrow>
           (Inr (fulfilledAt ex_clock
                   (Suc (length (approveWrites ex_clock (sort_key expiryDate) 1
                                   (ex_request 1 A_pos 5 pending) ex_store)))
                   (ex_request 1 A_pos 5 pending)),
            applyWrites (approveWrites ex_clock (sort_key expiryDate) 1 (ex_request 1 A_pos 5 pending) ex_store)
              ex_store)
       | Some n \<Rightarrow>
           (Inl Unexpected,
            applyWrites (take n (approveWrites ex_clock (sort_key expiryDate) 1
                                   (ex_request 1 A_pos 5 pending) ex_store))
              ex_store))"
    by blast
  then have a: "approve ex_clock (fault_at 2) (sort_key expiryDate) 1 ex_store =
     (Inl Unexpected,
      applyWrites (take 2 (approveWrites ex_clock (sort_key expiryDate) 1 (ex_request 1 A_pos 5 pending) ex_store))
        ex_store)"
    by (simp only: l ff option.case)
  have e: "applyWrites (take 2 (approveWrites ex_clock (sort_key expiryDate) 1 (ex_request 1 A_pos 5 pending) ex_store))
     ex_store =
     \<lparr>inventory = [ex_b2, ex_b1\<lparr>status := used, updatedAt := 102\<rparr>, ex_b3,
                   ex_b2\<lparr>inv_id := 4, units := 2, status := used, updatedAt := 103\<rparr>],
      requests = requests ex_store\<rparr>"
    by code_simp
  from inst ex_find(2) s'
  have "approve_reserve ex_clock no_faults (sort_key expiryDate) 1 ex_reserve_store =
      (case firstFault no_faults
              (length (approveReserveWrites ex_clock (sort_key expiryDate) 1
                         (ex_reserve_request 1 A_pos 5 pending) ex_reserve_store)) of
         None \<Rightarrow>
           (Inr (approvedAt ex_clock
                   (approveReserveClock (sort_key expiryDate) (ex_reserve_request 1 A_pos 5 pending)
                      ex_reserve_store)
                   (ex_reserve_request 1 A_pos 5 pending)),
            applyWrites (approveReserveWrites ex_clock (sort_key expiryDate) 1
                           (ex_reserve_request 1 A_pos 5 pending) ex_reserve_store)
              ex_reserve_store)
       | Some n \<Rightarrow>
           (Inl Unexpected,
            applyWrites (take n (approveReserveWrites ex_clock (sort_key expiryDate) 1
                                   (ex_reserve_request 1 A_pos 5 pending) ex_reserve_store))
              ex_reserve_store))"
    by blast
  then have b: "approve_reserve ex_clock no_faults (sort_key expiryDate) 1 ex_reserve_store =
     (Inr (approvedAt ex_clock
             (approveReserveClock (sort_key expiryDate) (ex_reserve_request 1 A_pos 5 pending) ex_reserve_store)
             (ex_reserve_request 1 A_pos 5 pending)),
      applyWrites
        (approveReserveWrites ex_clock (sort_key expiryDate) 1 (ex_reserve_request 1 A_pos 5 pending)
           ex_reserve_store)
        ex_reserve_store)"
    by (simp only: l' ff' option.case)
  have e': "applyWrites
     (approveReserveWrites ex_clock (sort_key expiryDate) 1 (ex_reserve_request 1 A_pos 5 pending)
        ex_reserve_store)
     ex_reserve_store = ex_reserve_store_approved"
    by code_simp
  show ?thesis by (intro conjI ex_find p s l ff a e s' l' ff' b e')
qed

lemma approve_rejects_non_pending:
  "find (\<lambda>r. req_id r = rid) (requests db) = Some request \<Longrightarrow> req_status request \<noteq> pending \<Longrightarrow>
   approve clk fails srt rid db = (Inl (InvalidState (req_status request)), db)"
  by (simp add: approve_def)

lemma approve_succeeds_only_on_pending:
  "approve clk fails srt rid db = (Inr r', db') \<Longrightarrow>
   \<exists>request. find (\<lambda>r. req_id r = rid) (requests db) = Some request \<and> req_status request = pending"
  by (auto simp: approve_def split: option.splits if_splits loop_result.splits)

text \<open>
  C6. \<^verbatim>\<open>server.js\<close> does what the claim says (\<open>approve_rejects_non_pending\<close>,
  \<open>approve_succeeds_only_on_pending\<close>). The handler of \<^verbatim>\<open>part_000\<close> never reads the
  status of the request: on request 3 of the example store, which is already approved,
  it answers with success, splits a batch and reserves one more unit.
\<close>

theorem approve_reserve_accepts_non_pending:
  "find (\<lambda>r. rsv_id r = 3) (rsv_requests ex_reserve_store) = Some (ex_reserve_request 3 A_pos 1 approved) \<and>
   rsv_status (ex_reserve_request 3 A_pos 1 approved) \<noteq> pending \<and>
   fst (approve_reserve ex_clock no_faults (sort_key expiryDate) 3 ex_reserve_store) =
     Inr ((ex_reserve_request 3 A_pos 1 approved)
            \<lparr>rsv_processedBy := Some ''System Admin'', rsv_updatedAt := 102\<rparr>) \<and>
   rsv_inventory (snd (approve_reserve ex_clock no_faults (sort_key expiryDate) 3 ex_reserve_store)) =
     [ex_b2, ex_b1\<lparr>units := 2\<rparr>, ex_b3,
      ex_b1\<lparr>inv_id := 4, units := 1, status := reserved, createdAt := 100, updatedAt := 101\<rparr>] \<and>
   rsv_inventory (snd (approve_reserve ex_clock no_faults (sort_key expiryDate) 3 ex_reserve_store)) \<noteq>
     rsv_inventory ex_reserve_store"
  by code_simp

lemma approve_consumes_only_matching:
  assumes f: "find (\<lambda>r. req_id r = rid) (requests db) = Some request"
    and d: "distinct (map inv_id (inventory db))"
    and s: "sortedByExpiry srt (filter (matchAvailable (req_bloodType request) (clk 1)) (inventory db))"
    and b: "b \<in> set (inventory db)" and av: "status b = available"
    and c: "consumed b (inventory (snd (approve clk fails srt rid db)))"
  shows "matchAvailable (req_bloodType request) (clk 1) b"
proof (rule ccontr)
  assume nm: "\<not> matchAvailable (req_bloodType request) (clk 1) b"
  let ?items = "srt (filter (matchAvailable (req_bloodType request) (clk 1)) (inventory db))"
  let ?res = "inv_of (deductLoop clk fails ?items (req_units request) 2 0 (inventory db))"
  have old: "findInv (inv_id b) (inventory db) = Some b" by (rule findInv_member[OF d b])
  have "inv_id b \<notin> inv_id ` set ?items"
  proof
    assume "inv_id b \<in> inv_id ` set ?items"
    then obtain x where x: "x \<in> set ?items" "inv_id x = inv_id b" by auto
    then have "x \<in> set (inventory db)" using sorted_items(1)[OF s d] by auto
    then have "x = b" using x(2) b d by (metis distinct_map inj_onD)
    then show False using x(1) nm sorted_items(3)[OF s d] by simp
  qed
  moreover have "inv_id b \<in> inv_id ` set (inventory db)" using b by blast
  ultimately have "findInv (inv_id b) ?res = findInv (inv_id b) (inventory db)"
    using sorted_items(1)[OF s d] d sorted_items(2)[OF s d] by (rule deductLoop_frame_id)
  then have "findInv (inv_id b) (inventory (snd (approve clk fails srt rid db))) = Some b"
    using approve_inventory[OF f, of clk fails srt] old by auto
  then show False using consumed_changed[OF av c] by simp
qed

lemma approve_stale_example:
  "approve ex_clock no_faults (sort_key expiryDate) 1 ex_stale_store =
     (Inl (InsufficientStock (Some B_pos) 0 2), ex_stale_store)"
  by code_simp

text \<open>
  C7. \<^verbatim>\<open>server.js\<close> does what the claim says, by the filter \<^verbatim>\<open>expiryDate: { $gt: new Date() }\<close>
  of its two queries and without a sweep: its sum counts the documents that
  \<open>matchAvailable\<close> holds of, and an available batch it consumes was matched by the
  query (\<open>approve_consumes_only_matching\<close>). The handler of \<^verbatim>\<open>part_000\<close> neither runs the
  sweep nor filters on the expiry date: with one available batch of 2 units of B+ whose
  expiry date (50) lies before every reading of the clock (100 and later), it counts
  the batch, answers a request for 2 units with success and reserves the batch.
\<close>

theorem approve_reserve_consumes_expired:
  "expiryDate ex_stale < ex_clock 0 \<and> status ex_stale = available \<and>
   availableUnits B_pos (rsv_inventory ex_stale_reserve_store) = 2 \<and>
   fst (approve_reserve ex_clock no_faults (sort_key expiryDate) 1 ex_stale_reserve_store) =
     Inr ((ex_reserve_request 1 B_pos 2 pending)
            \<lparr>rsv_status := approved, rsv_processedBy := Some ''System Admin'',
             rsv_updatedAt := 100\<rparr>) \<and>
   rsv_inventory (snd (approve_reserve ex_clock no_faults (sort_key expiryDate) 1 ex_stale_reserve_store)) =
     [ex_stale\<lparr>status := reserved\<rparr>]"
  by code_simp

end
